theory Spec2Isabelle
  imports Complex_Main "HOL-Library.Multiset" "HOL-Library.Product_Lexorder"
begin

section \<open>Data model of \<open>parallel-shards.cpp\<close>\<close>

text \<open>
  The converter is the single function \<open>loadParallelFileShards\<close>: it reads the shards
  of an edge list, sends every edge to the process that owns its source vertex, sorts
  what each process receives and writes one binary file. The model follows the
  function part by part. What the function does beyond computing values is written
  out: an index outside its vector, an uncaught exception, a failed assertion and the
  abort are results of an error type; a local variable that is read before it is set
  has its initial value as an input; a loop whose end the text does not bound is a
  partial function; a collective of the message-passing runtime is its result on the
  values of all processes, and a call that the runtime's standard does not allow is
  an error.
\<close>

text \<open>
  Modelled from the spec: the types that the absent header \<open>parallel-shards.hpp\<close>
  declares.
  \<^item> \<open>GraphElem\<close>, a global vertex id or a count, is a signed integer type. It is
    modelled as \<open>int\<close>; the arithmetic of the function is followed inside the range
    where the machine type does not overflow.
  \<^item> \<open>GraphWeight\<close> is a floating-point type. The function reads a weight, may take its
    magnitude, and copies it; it is modelled as \<open>real\<close>, and the rounding of a decimal
    numeral to the machine type is left out.
  \<^item> \<open>GraphElemTuple\<close> has the fields \<^verbatim>\<open>i_\<close>, \<^verbatim>\<open>j_\<close>, \<^verbatim>\<open>w_\<close> (source, destination,
    weight), and \<open>Edge\<close> is built from a destination and a weight. A name cannot end in
    an underscore here, so the fields are \<open>ei\<close>, \<open>ej\<close>, \<open>ew\<close> and \<open>tail\<close>, \<open>weight\<close>.
  \<^item> \<open>rank\<close> and \<open>nprocs\<close> are counts given by the runtime and are modelled as \<open>nat\<close>.
\<close>

type_synonym GraphElem = int
type_synonym GraphWeight = real

record GraphElemTuple =
  ei :: GraphElem
  ej :: GraphElem
  ew :: GraphWeight

record Edge =
  tail :: GraphElem
  weight :: GraphWeight

section \<open>Ways the function stops early\<close>

text \<open>
  \<open>AssertionFailed\<close>: one of the three \<open>assert\<close>s at the top fails.
  \<open>UncaughtException\<close>: \<open>substr\<close> or \<open>std::stoi\<close> throws, or a shard found by the first
  pass cannot be read.
  \<open>OutOfBounds\<close>: an index outside its vector (\<open>operator[]\<close> does not check; the
  behaviour is undefined, and the model stops there).
  \<open>Aborted\<close>: the output file cannot be opened and the function calls \<open>MPI_Abort\<close>.
  \<open>ErroneousCall\<close>: a call of the message-passing runtime with an argument that the
  standard does not allow on the calling process (the behaviour is not defined, and
  the model stops there).
\<close>

datatype error = AssertionFailed | UncaughtException | OutOfBounds | Aborted | ErroneousCall

text \<open>The results of a list of steps, or the first error among them.\<close>

fun all_ok :: "(error + 'a) list \<Rightarrow> error + 'a list" where
  "all_ok [] = Inr []"
| "all_ok (r # rs) =
     (case r of
        Inl e \<Rightarrow> Inl e
      | Inr x \<Rightarrow> (case all_ok rs of Inl e \<Rightarrow> Inl e | Inr xs \<Rightarrow> Inr (x # xs)))"

section \<open>Part 1: reading the file shards into the edge list\<close>

subsection \<open>Formatted input of the standard library\<close>

text \<open>
  A stream is its unread characters and its two state bits. \<open>std::istringstream iss(line)\<close>
  starts with the whole line, and a file stream with the whole file.
\<close>

record istream =
  rdbuf :: string
  eofbit :: bool
  failbit :: bool

definition istringstream :: "string \<Rightarrow> istream" where
  "istringstream line = \<lparr>rdbuf = line, eofbit = False, failbit = False\<rparr>"

definition good :: "istream \<Rightarrow> bool" where
  "good s = (\<not> eofbit s \<and> \<not> failbit s)"

definition isspace :: "char \<Rightarrow> bool" where
  "isspace c = (c = CHR '' '' \<or> (9 \<le> (of_char c :: nat) \<and> (of_char c :: nat) \<le> 13))"

definition isdigit :: "char \<Rightarrow> bool" where
  "isdigit c = (48 \<le> (of_char c :: nat) \<and> (of_char c :: nat) \<le> 57)"

definition dec :: "string \<Rightarrow> nat" where
  "dec ds = foldl (\<lambda>a c. 10 * a + (of_char c - 48)) 0 ds"

text \<open>
  The sentry of a formatted extraction: it fails, setting \<open>failbit\<close>, on a stream that is
  not good; otherwise it skips white space, and fails with both bits set when nothing
  is left.
\<close>

definition sentry :: "istream \<Rightarrow> bool \<times> istream" where
  "sentry s =
     (if \<not> good s then (False, s\<lparr>failbit := True\<rparr>)
      else (let b = dropWhile isspace (rdbuf s) in
            if b = [] then (False, s\<lparr>rdbuf := [], eofbit := True, failbit := True\<rparr>)
            else (True, s\<lparr>rdbuf := b\<rparr>)))"

text \<open>\<open>iss >> ch\<close>: one character after white space. The function never reads \<open>ch\<close>.\<close>

definition get_char :: "istream \<Rightarrow> istream" where
  "get_char s = (case sentry s of
       (False, s') \<Rightarrow> s'
     | (True, s') \<Rightarrow> s'\<lparr>rdbuf := tl (rdbuf s')\<rparr>)"

text \<open>An optional sign: whether it is a minus, and what follows it.\<close>

definition get_sign :: "string \<Rightarrow> bool \<times> string" where
  "get_sign b = (case b of
       [] \<Rightarrow> (False, [])
     | c # cs \<Rightarrow> if c = CHR ''-'' then (True, cs) else if c = CHR ''+'' then (False, cs)
                else (False, b))"

text \<open>
  \<open>iss >> v\<close> for an integer \<open>v\<close>: a sign and decimal digits. When the sentry fails the
  variable keeps its value; when no digit is found the variable becomes 0 and \<open>failbit\<close>
  is set (the rule since C++11); \<open>eofbit\<close> is set when the digits run to the end.
\<close>

definition get_int :: "istream \<Rightarrow> GraphElem \<Rightarrow> istream \<times> GraphElem" where
  "get_int s v = (case sentry s of
       (False, s') \<Rightarrow> (s', v)
     | (True, s') \<Rightarrow>
         (let (neg, b1) = get_sign (rdbuf s');
              ds = takeWhile isdigit b1;
              rest = dropWhile isdigit b1;
              s'' = s'\<lparr>rdbuf := rest, eofbit := (rest = [])\<rparr>
          in if ds = [] then (s''\<lparr>failbit := True\<rparr>, 0)
             else (s'', if neg then - int (dec ds) else int (dec ds))))"

text \<open>
  \<open>iss >> w\<close> for a floating-point \<open>w\<close>: a sign, digits, an optional fraction and an
  optional exponent. The value is the decimal numeral read; a numeral with no digit in
  its mantissa, or with an exponent mark and no exponent digit, fails like an integer.
\<close>

definition pow10 :: "bool \<Rightarrow> nat \<Rightarrow> real" where
  "pow10 neg e = (if neg then 1 / 10 ^ e else 10 ^ e)"

definition get_double :: "istream \<Rightarrow> GraphWeight \<Rightarrow> istream \<times> GraphWeight" where
  "get_double s v = (case sentry s of
       (False, s') \<Rightarrow> (s', v)
     | (True, s') \<Rightarrow>
         (let (neg, b1) = get_sign (rdbuf s');
              ip = takeWhile isdigit b1;
              b2 = dropWhile isdigit b1;
              dot = (b2 \<noteq> [] \<and> hd b2 = CHR ''.'');
              fp = (if dot then takeWhile isdigit (tl b2) else []);
              b3 = (if dot then dropWhile isdigit (tl b2) else b2);
              mant = (ip \<noteq> [] \<or> fp \<noteq> []);
              sci = (mant \<and> b3 \<noteq> [] \<and> (hd b3 = CHR ''e'' \<or> hd b3 = CHR ''E''));
              (eneg, b4) = (if sci then get_sign (tl b3) else (False, b3));
              ed = (if sci then takeWhile isdigit b4 else []);
              rest = (if sci then dropWhile isdigit b4 else b3);
              ok = (mant \<and> (if sci then ed \<noteq> [] else True));
              x = (real (dec ip) + real (dec fp) / 10 ^ length fp) * pow10 eneg (dec ed);
              s'' = s'\<lparr>rdbuf := rest, eofbit := (rest = [])\<rparr>
          in if ok then (s'', if neg then - x else x)
             else (s''\<lparr>failbit := True\<rparr>, 0)))"

subsection \<open>One line of a shard\<close>

text \<open>
  The loop body declares \<open>v0\<close>, \<open>v1\<close>, \<open>info\<close> and \<open>w\<close> without initialisers, so each
  starts with whatever its storage holds. That value is an input of the model: \<open>junk\<close>
  gives the four initial values.

  \<^verbatim>\<open>iss >> v0 >> ch >> v1 >> ch >> info >> ch >> w;\<close>
\<close>

type_synonym line_vars = "GraphElem \<times> GraphElem \<times> GraphElem \<times> GraphWeight"

definition read_4 :: "istream \<times> line_vars \<Rightarrow> istream \<times> line_vars" where
  "read_4 = (\<lambda>(iss, v0, v1, info, w).
     let (iss, v0) = get_int iss v0; iss = get_char iss;
         (iss, v1) = get_int iss v1; iss = get_char iss;
         (iss, info) = get_int iss info; iss = get_char iss;
         (iss, w) = get_double iss w
     in (iss, v0, v1, info, w))"

text \<open>\<^verbatim>\<open>iss >> v0 >> ch >> v1 >> ch >> info;\<close>\<close>

definition read_3 :: "istream \<times> line_vars \<Rightarrow> istream \<times> line_vars" where
  "read_3 = (\<lambda>(iss, v0, v1, info, w).
     let (iss, v0) = get_int iss v0; iss = get_char iss;
         (iss, v1) = get_int iss v1; iss = get_char iss;
         (iss, info) = get_int iss info
     in (iss, v0, v1, info, w))"

text \<open>
  Modelled from the spec: the enumeration \<open>Weight_t\<close> of the absent header. The spec
  has three weight modes, raw, absolute and unweighted; the function names the first
  two \<open>ORG_WEIGHT\<close> and \<open>ABS_WEIGHT\<close>, and \<open>NO_WEIGHT\<close> stands for every other
  enumerator.
\<close>

datatype Weight_t = ORG_WEIGHT | ABS_WEIGHT | NO_WEIGHT

text \<open>
  \<^verbatim>\<open>if (wtype == ORG_WEIGHT) iss >> ... >> w;\<close>
  \<^verbatim>\<open>if (wtype == ABS_WEIGHT) { iss >> ... >> w; w = std::fabs(w); }\<close>
  \<^verbatim>\<open>else iss >> v0 >> ch >> v1 >> ch >> info;\<close>

  The second \<open>if\<close> is not chained to the first by an \<open>else\<close>: with \<open>ORG_WEIGHT\<close> both
  the first statement and the final \<open>else\<close> run, on the same stream.
\<close>

definition parse_line :: "Weight_t \<Rightarrow> string \<Rightarrow> line_vars \<Rightarrow> line_vars" where
  "parse_line wtype line junk =
     (let st = (istringstream line, junk);
          st = (if wtype = ORG_WEIGHT then read_4 st else st);
          st = (if wtype = ABS_WEIGHT
                then (case read_4 st of (iss, v0, v1, info, w) \<Rightarrow> (iss, v0, v1, info, \<bar>w\<bar>))
                else read_3 st)
      in snd st)"

text \<open>
  The rest of the loop body: the index base, the shard offsets, the append and the
  running maximum.
\<close>

definition loop_body ::
  "Weight_t \<Rightarrow> bool \<Rightarrow> GraphElem \<Rightarrow> GraphElem \<Rightarrow> string \<Rightarrow> line_vars
   \<Rightarrow> GraphElemTuple list \<times> GraphElem \<Rightarrow> GraphElemTuple list \<times> GraphElem" where
  "loop_body wtype indexOneBased v_lo v_hi line junk = (\<lambda>(edgeList, numVertices).
     let (v0, v1, info, w) = parse_line wtype line junk;
         (v0, v1) = (if indexOneBased then (v0 - 1, v1 - 1) else (v0, v1));
         v0 = v0 + v_lo;
         v1 = v1 + v_hi;
         edgeList = edgeList @ [\<lparr>ei = v0, ej = v1, ew = w\<rparr>];
         numVertices = (if v0 > numVertices then v0 else numVertices);
         numVertices = (if v1 > numVertices then v1 else numVertices)
     in (edgeList, numVertices))"

subsection \<open>The read loop\<close>

text \<open>
  \<open>std::getline(ifs, line)\<close> on the unread part of the file: the characters up to the
  next newline, which it consumes, or up to the end of the file, where it sets
  \<open>eofbit\<close>. The result is the line, the unread rest, and whether the end was hit.
\<close>

fun getline :: "string \<Rightarrow> string \<times> string \<times> bool" where
  "getline [] = ([], [], True)"
| "getline (c # cs) =
     (if c = CHR 0x0A then ([], cs, False)
      else (case getline cs of (line, rest, eof) \<Rightarrow> (c # line, rest, eof)))"

text \<open>
  \<^verbatim>\<open>while(!ifs.eof()) { ...; std::getline(ifs, line); ...; edgeList.push_back({v0, v1, w}); ... }\<close>
  The test comes before the read, so the body also runs on the read that hits the end
  of the file. \<open>k\<close> counts the iterations; \<open>junk k\<close> gives the initial values of the
  locals of iteration \<open>k\<close>.
\<close>

function read_loop ::
  "Weight_t \<Rightarrow> bool \<Rightarrow> GraphElem \<Rightarrow> GraphElem \<Rightarrow> (nat \<Rightarrow> line_vars) \<Rightarrow> string \<Rightarrow> nat
   \<Rightarrow> GraphElemTuple list \<times> GraphElem \<Rightarrow> GraphElemTuple list \<times> GraphElem" where
  "read_loop wtype indexOneBased v_lo v_hi junk ifs k st =
     (case getline ifs of (line, rest, eof) \<Rightarrow>
        (let st' = loop_body wtype indexOneBased v_lo v_hi line (junk k) st
         in if eof then st' else read_loop wtype indexOneBased v_lo v_hi junk rest (Suc k) st'))"
  by pat_completeness auto
termination
proof -
  have shorter: "getline cs = (line, rest, False) \<Longrightarrow> length rest < length cs" for cs line rest
    by (induction cs arbitrary: line) (auto split: if_splits prod.splits)
  show ?thesis
    by (relation "measure (\<lambda>(wtype, indexOneBased, v_lo, v_hi, junk, ifs, k, st). length ifs)")
       (auto dest: shorter[OF sym])
qed

declare read_loop.simps [simp del]

subsection \<open>The list of shards and the shard of a process\<close>

text \<open>\<open>std::to_string\<close> of an integer: its decimal digits, after a minus sign if negative.\<close>

fun digits :: "nat \<Rightarrow> string" where
  "digits n = (if n < 10 then [char_of (48 + n)] else digits (n div 10) @ [char_of (48 + n mod 10)])"

declare digits.simps [simp del]

definition to_string :: "int \<Rightarrow> string" where
  "to_string n = (if n < 0 then CHR ''-'' # digits (nat (- n)) else digits (nat n))"

text \<open>
  \<^verbatim>\<open>fileNameShard = std::to_string(ci) + "__" + std::to_string(cj) + ".csv";\<close>
  \<^verbatim>\<open>fileName = fileInShardsPath + "/" + fileNameShard;\<close>
\<close>

definition shard_file_name :: "string \<Rightarrow> int \<Rightarrow> int \<Rightarrow> string" where
  "shard_file_name fileInShardsPath ci cj =
     fileInShardsPath @ ''/'' @ (to_string ci @ ''__'' @ to_string cj @ ''.csv'')"

text \<open>
  The file system is a map from a path to the file's text. The two loops over
  \<open>[fileStartIndex, fileEndIndex]\<close> try every name in row-major order and number the
  files that open 0, 1, 2, ...: \<open>fileProc\<close> is the list of the names found, and the key
  of a name is its position.
\<close>

definition fileProc :: "(string \<Rightarrow> string option) \<Rightarrow> string \<Rightarrow> int \<Rightarrow> int \<Rightarrow> string list" where
  "fileProc fs fileInShardsPath fileStartIndex fileEndIndex =
     filter (\<lambda>fileName. fs fileName \<noteq> None)
       (concat (map (\<lambda>ci. map (\<lambda>cj. shard_file_name fileInShardsPath ci cj)
                              [fileStartIndex..fileEndIndex])
                    [fileStartIndex..fileEndIndex]))"

text \<open>
  The string functions used to take a name apart. A position is a \<open>size_t\<close>;
  \<open>npos\<close> is its largest value, and adding to it wraps around.
\<close>

definition npos :: nat where
  "npos = 2 ^ 64 - 1"

definition find_last_of :: "string \<Rightarrow> char \<Rightarrow> nat" where
  "find_last_of s c =
     (if c \<in> set s then length s - 1 - length (takeWhile (\<lambda>x. x \<noteq> c) (rev s)) else npos)"

fun find_from :: "string \<Rightarrow> string \<Rightarrow> nat \<Rightarrow> nat" where
  "find_from [] pat i = (if pat = [] then i else npos)"
| "find_from (c # cs) pat i =
     (if take (length pat) (c # cs) = pat then i else find_from cs pat (Suc i))"

definition find_str :: "string \<Rightarrow> string \<Rightarrow> nat" where
  "find_str s pat = find_from s pat 0"

definition substr :: "string \<Rightarrow> nat \<Rightarrow> nat \<Rightarrow> error + string" where
  "substr s pos n =
     (if length s < pos then Inl UncaughtException
      else Inr (take (min n (length s - pos)) (drop pos s)))"

text \<open>
  \<open>std::stoi\<close>: white space, a sign, decimal digits; it throws when there is no digit or
  the value is not an \<open>int\<close>.
\<close>

definition stoi :: "string \<Rightarrow> error + int" where
  "stoi s =
     (let (neg, b) = get_sign (dropWhile isspace s);
          ds = takeWhile isdigit b;
          v = (if neg then - int (dec ds) else int (dec ds))
      in if ds = [] \<or> v < - 2147483648 \<or> 2147483647 < v then Inl UncaughtException else Inr v)"

text \<open>
  \<^verbatim>\<open>fileName_full = (mpit->second).substr((mpit->second).find_last_of("/") + 1);\<close>
  \<^verbatim>\<open>fileName_noext = fileName_full.substr(0, fileName_full.find("."));\<close>
  \<^verbatim>\<open>fileName_right = fileName_noext.substr(fileName_full.find("__") + 2);\<close>
  \<^verbatim>\<open>fileName_left = fileName_noext.substr(0, fileName_full.find("__"));\<close>
  \<^verbatim>\<open>v_lo = (GraphElem)(std::stoi(fileName_left) - 1)*shardCount;\<close>
  \<^verbatim>\<open>v_hi = (GraphElem)(std::stoi(fileName_right) - 1)*shardCount;\<close>
\<close>

definition shard_offsets :: "string \<Rightarrow> GraphElem \<Rightarrow> error + (GraphElem \<times> GraphElem)" where
  "shard_offsets fileName shardCount =
     (case substr fileName ((find_last_of fileName CHR ''/'' + 1) mod 2 ^ 64) npos of
        Inl e \<Rightarrow> Inl e
      | Inr fileName_full \<Rightarrow>
     (case substr fileName_full 0 (find_str fileName_full ''.'') of
        Inl e \<Rightarrow> Inl e
      | Inr fileName_noext \<Rightarrow>
     (case substr fileName_noext ((find_str fileName_full ''__'' + 2) mod 2 ^ 64) npos of
        Inl e \<Rightarrow> Inl e
      | Inr fileName_right \<Rightarrow>
     (case substr fileName_noext 0 (find_str fileName_full ''__'') of
        Inl e \<Rightarrow> Inl e
      | Inr fileName_left \<Rightarrow>
     (case stoi fileName_left of
        Inl e \<Rightarrow> Inl e
      | Inr left \<Rightarrow>
     (case stoi fileName_right of
        Inl e \<Rightarrow> Inl e
      | Inr right \<Rightarrow> Inr ((left - 1) * shardCount, (right - 1) * shardCount)))))))"

text \<open>
  Part 1 on one process: a process whose rank is a key of \<open>fileProc\<close> reads that shard,
  every other process keeps an empty edge list; \<open>numVertices\<close> starts at 0.
  The result is \<open>edgeList\<close> and \<open>numVertices\<close>.
\<close>

definition read_shard ::
  "(string \<Rightarrow> string option) \<Rightarrow> string list \<Rightarrow> nat \<Rightarrow> bool \<Rightarrow> Weight_t \<Rightarrow> GraphElem
   \<Rightarrow> (nat \<Rightarrow> line_vars) \<Rightarrow> error + (GraphElemTuple list \<times> GraphElem)" where
  "read_shard fs names rank indexOneBased wtype shardCount junk =
     (if rank < length names then
        (case shard_offsets (names ! rank) shardCount of
           Inl e \<Rightarrow> Inl e
         | Inr (v_lo, v_hi) \<Rightarrow>
             (case fs (names ! rank) of
                None \<Rightarrow> Inl UncaughtException
              | Some ifs \<Rightarrow>
                  Inr (read_loop wtype indexOneBased v_lo v_hi junk ifs 0 ([], 0))))
      else Inr ([], 0))"

subsection \<open>The global counts\<close>

text \<open>
  A collective is modelled by its result on the list of the values the processes
  contribute, rank by rank; there is at least one process.
  \<^verbatim>\<open>numEdges = edgeList.size()*2;\<close>
  \<^verbatim>\<open>MPI_Allreduce(&numEdges, &globalNumEdges, 1, MPI_GRAPH_TYPE, MPI_SUM, MPI_COMM_WORLD);\<close>
  \<^verbatim>\<open>MPI_Allreduce(&numVertices, &globalNumVertices, 1, MPI_GRAPH_TYPE, MPI_MAX, MPI_COMM_WORLD);\<close>
  \<^verbatim>\<open>if (!indexOneBased) globalNumVertices += 1;\<close>
\<close>

definition MPI_SUM :: "GraphElem list \<Rightarrow> GraphElem" where
  "MPI_SUM xs = sum_list xs"

definition MPI_MAX :: "GraphElem list \<Rightarrow> GraphElem" where
  "MPI_MAX xs = fold max (tl xs) (hd xs)"

definition reduce_numEdges :: "(GraphElemTuple list \<times> GraphElem) list \<Rightarrow> GraphElem" where
  "reduce_numEdges locals = MPI_SUM (map (\<lambda>(edgeList, numVertices). int (length edgeList) * 2) locals)"

definition reduce_numVertices :: "bool \<Rightarrow> (GraphElemTuple list \<times> GraphElem) list \<Rightarrow> GraphElem" where
  "reduce_numVertices indexOneBased locals =
     (let m = MPI_MAX (map (\<lambda>(edgeList, numVertices). numVertices) locals)
      in if \<not> indexOneBased then m + 1 else m)"

section \<open>Part 2: the partition table and the owner of a vertex\<close>

text \<open>C++ integer division truncates towards zero.\<close>

definition tdiv :: "int \<Rightarrow> int \<Rightarrow> int" where
  "tdiv a b = (if (a < 0) = (b < 0) then \<bar>a\<bar> div \<bar>b\<bar> else - (\<bar>a\<bar> div \<bar>b\<bar>))"

text \<open>
  \<^verbatim>\<open>std::vector<GraphElem> parts(nprocs+1); parts[0] = 0;\<close>
  \<^verbatim>\<open>for (GraphElem i = 1; i < nprocs+1; i++) parts[i] = ((globalNumVertices * i) / nprocs);\<close>
\<close>

definition parts :: "GraphElem \<Rightarrow> nat \<Rightarrow> GraphElem list" where
  "parts globalNumVertices nprocs =
     0 # map (\<lambda>i. tdiv (globalNumVertices * int i) (int nprocs)) [1..<nprocs + 1]"

text \<open>
  \<open>std::upper_bound\<close> over a random-access range, as the standard library writes it: a
  binary search that halves the range \<open>[first, first + len)\<close> and returns the first
  position whose element is greater than \<open>val\<close>.
\<close>

function ub_loop :: "GraphElem list \<Rightarrow> GraphElem \<Rightarrow> nat \<Rightarrow> nat \<Rightarrow> nat" where
  "ub_loop xs val first len =
     (if 0 < len then
        (let half = len div 2; middle = first + half in
         if val < xs ! middle then ub_loop xs val first half
         else ub_loop xs val (middle + 1) (len - half - 1))
      else first)"
  by pat_completeness auto
termination
  by (relation "measure (\<lambda>(xs, val, first, len). len)") auto

declare ub_loop.simps [simp del]

definition upper_bound :: "GraphElem list \<Rightarrow> GraphElem \<Rightarrow> nat" where
  "upper_bound xs val = ub_loop xs val 0 (length xs)"

text \<open>
  \<^verbatim>\<open>iter = std::upper_bound(parts.begin(), parts.end(), vertex);\<close>
  \<^verbatim>\<open>owner = (iter - parts.begin() - 1);\<close>
\<close>

definition owner :: "GraphElem list \<Rightarrow> GraphElem \<Rightarrow> int" where
  "owner ps vertex = int (upper_bound ps vertex) - 1"

section \<open>Part 2, continued: distributing the edges and counting them\<close>

text \<open>
  One end point of a record: the owner of \<open>vertex\<close> is looked up, \<open>edgeCount[vertex+1]\<close>
  is incremented and the tuple \<open>e\<close> is appended to \<open>outEdges[owner]\<close>.
  \<^verbatim>\<open>iter = std::upper_bound(parts.begin(), parts.end(), vertex);\<close>
  \<^verbatim>\<open>owner = (iter - parts.begin() - 1);\<close>
  \<^verbatim>\<open>edgeCount[vertex+1]++;\<close>
  \<^verbatim>\<open>outEdges[owner].emplace_back(...);\<close>
\<close>

definition count_and_bucket ::
  "GraphElem list \<Rightarrow> GraphElem \<Rightarrow> GraphElemTuple
   \<Rightarrow> GraphElem list \<times> GraphElemTuple list list
   \<Rightarrow> error + (GraphElem list \<times> GraphElemTuple list list)" where
  "count_and_bucket ps vertex e = (\<lambda>(edgeCount, outEdges).
     let ow = owner ps vertex in
     if vertex + 1 < 0 \<or> int (length edgeCount) \<le> vertex + 1 then Inl OutOfBounds
     else if ow < 0 \<or> int (length outEdges) \<le> ow then Inl OutOfBounds
     else Inr (edgeCount[nat (vertex + 1) := edgeCount ! nat (vertex + 1) + 1],
               outEdges[nat ow := outEdges ! nat ow @ [e]]))"

text \<open>
  \<^verbatim>\<open>for (GraphElem i = 0; i < (numEdges/2); i++) { ... edgeList[i] ...;\<close>
  \<^verbatim>\<open>  outEdges[owner].emplace_back(edgeList[i].j_, edgeList[i].i_, edgeList[i].w_); }\<close>
\<close>

definition reversed :: "GraphElemTuple \<Rightarrow> GraphElemTuple" where
  "reversed e = \<lparr>ei = ej e, ej = ei e, ew = ew e\<rparr>"

fun bucket_loop ::
  "GraphElem list \<Rightarrow> GraphElemTuple list
   \<Rightarrow> GraphElem list \<times> GraphElemTuple list list
   \<Rightarrow> error + (GraphElem list \<times> GraphElemTuple list list)" where
  "bucket_loop ps [] st = Inr st"
| "bucket_loop ps (e # edgeList) st =
     (case count_and_bucket ps (ei e) e st of
        Inl err \<Rightarrow> Inl err
      | Inr st1 \<Rightarrow>
     (case count_and_bucket ps (ej e) (reversed e) st1 of
        Inl err \<Rightarrow> Inl err
      | Inr st2 \<Rightarrow> bucket_loop ps edgeList st2))"

text \<open>
  \<^verbatim>\<open>std::vector<GraphElem> edgeCount(globalNumVertices+1);\<close>
  \<^verbatim>\<open>std::vector<std::vector<GraphElemTuple>> outEdges(nprocs);\<close>
  The result is \<open>edgeCount\<close> and \<open>outEdges\<close> of one process.
\<close>

definition distribute ::
  "GraphElem \<Rightarrow> nat \<Rightarrow> GraphElemTuple list
   \<Rightarrow> error + (GraphElem list \<times> GraphElemTuple list list)" where
  "distribute V nprocs edgeList =
     bucket_loop (parts V nprocs) edgeList
       (replicate (nat (V + 1)) 0, replicate nprocs [])"

text \<open>
  The sizes and the displacements of the groups of the send buffer. \<open>ssize\<close> and
  \<open>sdispls\<close> are filled from index 0 up, one entry per process; the model appends the
  entries. (The sizes are \<open>int\<close> in the function; the model follows it while a process
  sends fewer than \<open>2 ^ 31\<close> tuples.)
  \<^verbatim>\<open>int spos = 0;\<close>
  \<^verbatim>\<open>for (int p = 0; p < nprocs; p++) {\<close>
  \<^verbatim>\<open>    ssize[p] = (int)outEdges[p].size(); sdispls[p] = spos; spos += ssize[p]; }\<close>
\<close>

definition send_counts :: "'a list list \<Rightarrow> nat list \<times> nat list \<times> nat" where
  "send_counts outEdges =
     foldl (\<lambda>(ssize, sdispls, spos) outEdges_p.
              (ssize @ [length outEdges_p], sdispls @ [spos], spos + length outEdges_p))
           ([], [], 0) outEdges"

text \<open>
  The groups are copied into the send buffer one after the other.
  \<^verbatim>\<open>std::vector<GraphElemTuple> sredata(spos);\<close>
  \<^verbatim>\<open>spos = 0;\<close>
  \<^verbatim>\<open>for (int p = 0; p < nprocs; p++) {\<close>
  \<^verbatim>\<open>    std::memcpy(&sredata[spos], outEdges[p].data(), sizeof(GraphElemTuple)*outEdges[p].size());\<close>
  \<^verbatim>\<open>    spos += outEdges[p].size(); }\<close>
  \<open>sredata[spos]\<close> is evaluated in every iteration, also when \<open>outEdges[p]\<close> is empty, and
  it is an element of the vector only if \<open>spos < sredata.size()\<close>. In the model \<open>n\<close> is
  the size of the vector and \<open>copied\<close> holds its elements before \<open>spos\<close>, the ones
  copied so far, so that \<open>spos\<close> is the length of \<open>copied\<close>; the elements from \<open>spos\<close>
  on are default-constructed and are overwritten before anything reads them.
\<close>

fun pack_loop :: "nat \<Rightarrow> 'a list list \<Rightarrow> 'a list \<Rightarrow> error + 'a list" where
  "pack_loop n [] copied = Inr copied"
| "pack_loop n (outEdges_p # outEdges) copied =
     (if n \<le> length copied then Inl OutOfBounds
      else pack_loop n outEdges (copied @ outEdges_p))"

text \<open>The send buffer of one process with its sizes and displacements.\<close>

definition pack :: "'a list list \<Rightarrow> error + ('a list \<times> nat list \<times> nat list)" where
  "pack outEdges =
     (case send_counts outEdges of (ssize, sdispls, spos) \<Rightarrow>
        (case pack_loop spos outEdges [] of
           Inl e \<Rightarrow> Inl e
         | Inr sredata \<Rightarrow> Inr (sredata, ssize, sdispls)))"

text \<open>
  The exchange. Process \<open>p\<close> sends to process \<open>q\<close> the \<open>ssize[q]\<close> tuples of its send
  buffer that start at \<open>sdispls[q]\<close>. Process \<open>q\<close> learns the sizes through
  \<open>MPI_Alltoall\<close>, lays the groups out one after the other in the order of the ranks
  of the senders, and its \<open>rredata\<close> has the size of their sum. \<open>sends\<close> lists the
  send buffer, the sizes and the displacements of every process; the result is
  \<open>rredata\<close> of process \<open>q\<close>.
  \<^verbatim>\<open>MPI_Alltoall(ssize.data(), 1, MPI_INT, rsize.data(), 1, MPI_INT, MPI_COMM_WORLD);\<close>
  \<^verbatim>\<open>int rpos = 0;\<close>
  \<^verbatim>\<open>for (int p = 0; p < nprocs; p++) { rdispls[p] = rpos; rpos += rsize[p]; }\<close>
  \<^verbatim>\<open>std::vector<GraphElemTuple> rredata(rpos);\<close>
  \<^verbatim>\<open>MPI_Alltoallv(sredata.data(), ssize.data(), sdispls.data(), ettype,\<close>
  \<^verbatim>\<open>              rredata.data(), rsize.data(), rdispls.data(), ettype, MPI_COMM_WORLD);\<close>
\<close>

definition MPI_Alltoallv :: "('a list \<times> nat list \<times> nat list) list \<Rightarrow> nat \<Rightarrow> 'a list" where
  "MPI_Alltoallv sends q =
     concat (map (\<lambda>(sredata, ssize, sdispls). take (ssize ! q) (drop (sdispls ! q) sredata)) sends)"

text \<open>
  The reduction of the edge counts to process 0, over the first \<open>cnt\<close> entries; \<open>bufs\<close>
  lists \<open>edgeCount\<close> of every process in the order of the ranks. Every process names
  \<open>MPI_IN_PLACE\<close> as its send buffer. At the root that is allowed: its contribution is
  taken from its receive buffer, where the sums are put, and the entries after them
  stay as they are. On any other process it is not allowed: with more than one
  process the call is erroneous.
  \<^verbatim>\<open>MPI_Reduce(MPI_IN_PLACE, edgeCount.data(), globalNumVertices, MPI_GRAPH_TYPE, MPI_SUM, 0, ...);\<close>
\<close>

definition MPI_Reduce_SUM :: "GraphElem list list \<Rightarrow> nat \<Rightarrow> error + GraphElem list" where
  "MPI_Reduce_SUM bufs cnt =
     (if 1 < length bufs then Inl ErroneousCall
      else Inr (map (\<lambda>i. sum_list (map (\<lambda>buf. buf ! i) bufs)) [0..<cnt] @ drop cnt (hd bufs)))"

text \<open>
  \<^verbatim>\<open>for (GraphElem i = 1; i < globalNumVertices; i++) edgeCount[i] += edgeCount[i-1];\<close>
\<close>

definition local_prefix_sum :: "GraphElem list \<Rightarrow> nat \<Rightarrow> GraphElem list" where
  "local_prefix_sum edgeCount V =
     foldl (\<lambda>ec i. ec[i := ec ! i + ec ! (i - 1)]) edgeCount [1..<V]"

section \<open>The local sort\<close>

text \<open>
  \<^verbatim>\<open>auto ecmp = [] (GraphElemTuple const& e0, GraphElemTuple const& e1)\<close>
  \<^verbatim>\<open>{ return ((e0.i_ < e1.i_) || ((e0.i_ == e1.i_) && (e0.j_ < e1.j_))); };\<close>
\<close>

definition ecmp :: "GraphElemTuple \<Rightarrow> GraphElemTuple \<Rightarrow> bool" where
  "ecmp e0 e1 = (ei e0 < ei e1 \<or> (ei e0 = ei e1 \<and> ej e0 < ej e1))"

text \<open>\<open>std::is_sorted\<close>: no element is less than the one before it.\<close>

fun is_sorted :: "('a \<Rightarrow> 'a \<Rightarrow> bool) \<Rightarrow> 'a list \<Rightarrow> bool" where
  "is_sorted lt [] = True"
| "is_sorted lt [x] = True"
| "is_sorted lt (x # y # ys) = (\<not> lt y x \<and> is_sorted lt (y # ys))"

text \<open>
  \<open>std::sort\<close> is any algorithm that returns a permutation of its input in which no
  element is less than an earlier one; it need not keep equal elements in their order.
  \<open>LocalSorter\<close> takes the algorithm as \<open>sort_impl\<close>.
  \<^verbatim>\<open>if (!std::is_sorted(rredata.begin(), rredata.end(), ecmp))\<close>
  \<^verbatim>\<open>    std::sort(rredata.begin(), rredata.end(), ecmp);\<close>
\<close>

definition LocalSorter ::
  "(GraphElemTuple list \<Rightarrow> GraphElemTuple list) \<Rightarrow> GraphElemTuple list \<Rightarrow> GraphElemTuple list" where
  "LocalSorter sort_impl rredata =
     (if \<not> is_sorted ecmp rredata then sort_impl rredata else rredata)"

text \<open>One such algorithm, insertion from the right, for the runs that follow.\<close>

fun insert_by :: "('a \<Rightarrow> 'a \<Rightarrow> bool) \<Rightarrow> 'a \<Rightarrow> 'a list \<Rightarrow> 'a list" where
  "insert_by lt x [] = [x]"
| "insert_by lt x (y # ys) = (if lt y x then y # insert_by lt x ys else x # y # ys)"

definition std_sort :: "GraphElemTuple list \<Rightarrow> GraphElemTuple list" where
  "std_sort xs = foldr (insert_by ecmp) xs []"

section \<open>Part 3: writing the binary file\<close>

text \<open>
  The file is written with \<open>MPI_File_write_at\<close> only. A file handle is the bytes
  that the file holds, position by position (\<open>None\<close> where nothing was written), and
  the log of the calls made so far, each with its offset and its byte count. An offset
  is a position in the file, a natural number (\<open>MPI_Offset\<close> is a signed 64-bit type,
  and the positions of a file stay inside it).
\<close>

record 'b MPI_File =
  contents :: "nat \<Rightarrow> 'b option"
  calls :: "(nat \<times> nat) list"

definition MPI_File_write_at :: "'b MPI_File \<Rightarrow> nat \<Rightarrow> 'b list \<Rightarrow> 'b MPI_File" where
  "MPI_File_write_at fh offset bytes =
     \<lparr>contents = (\<lambda>pos. if offset \<le> pos \<and> pos < offset + length bytes
                          then Some (bytes ! (pos - offset)) else contents fh pos),
      calls = calls fh @ [(offset, length bytes)]\<rparr>"

text \<open>
  \<open>tot_bytes\<close> and \<open>transf_bytes\<close> are \<open>uint64_t\<close>: their sums and differences wrap
  around at \<open>2 ^ 64\<close>.
\<close>

definition u64_add :: "nat \<Rightarrow> nat \<Rightarrow> nat" where
  "u64_add a b = (a + b) mod 2 ^ 64"

definition u64_sub :: "nat \<Rightarrow> nat \<Rightarrow> nat" where
  "u64_sub a b = (a + 2 ^ 64 - b mod 2 ^ 64) mod 2 ^ 64"

text \<open>
  The loop of the chunked write. \<open>buf\<close> is the memory the pointer starts at, as bytes,
  and \<open>curr_pointer\<close> is the position of the pointer in it; \<open>cap\<close> is the limit the
  function compares with, \<open>INT_MAX\<close>.
  \<^verbatim>\<open>while (transf_bytes < tot_bytes) {\<close>
  \<^verbatim>\<open>    MPI_File_write_at(fh, offset, curr_pointer, chunk_bytes, MPI_BYTE, MPI_STATUS_IGNORE);\<close>
  \<^verbatim>\<open>    transf_bytes+=chunk_bytes; offset+=chunk_bytes; curr_pointer+=chunk_bytes;\<close>
  \<^verbatim>\<open>    if (tot_bytes-transf_bytes < INT_MAX) chunk_bytes=tot_bytes-transf_bytes; }\<close>
  The loop is not bounded by its text, so it is a partial function: \<open>None\<close> is a loop
  that never ends.
\<close>

partial_function (option) write_chunks ::
  "nat \<Rightarrow> nat \<Rightarrow> 'b list \<Rightarrow> 'b MPI_File \<Rightarrow> nat \<Rightarrow> nat \<Rightarrow> nat \<Rightarrow> nat \<Rightarrow> 'b MPI_File option" where
  "write_chunks cap tot_bytes buf fh offset curr_pointer transf_bytes chunk_bytes =
     (if transf_bytes < tot_bytes then
        (let fh' = MPI_File_write_at fh offset (take chunk_bytes (drop curr_pointer buf));
             transf_bytes' = u64_add transf_bytes chunk_bytes;
             offset' = offset + chunk_bytes;
             curr_pointer' = curr_pointer + chunk_bytes;
             chunk_bytes' = (if u64_sub tot_bytes transf_bytes' < cap
                             then u64_sub tot_bytes transf_bytes' else chunk_bytes)
         in write_chunks cap tot_bytes buf fh' offset' curr_pointer' transf_bytes' chunk_bytes')
      else Some fh)"

declare write_chunks.simps [code]

text \<open>
  \<^verbatim>\<open>if (tot_bytes < INT_MAX) MPI_File_write_at(fh, offset, buf, tot_bytes, MPI_BYTE, ...);\<close>
  \<^verbatim>\<open>else { int chunk_bytes=INT_MAX; uint8_t *curr_pointer = (uint8_t*) buf;\<close>
  \<^verbatim>\<open>       uint64_t transf_bytes=0; while ... }\<close>
\<close>

definition write_payload :: "nat \<Rightarrow> 'b MPI_File \<Rightarrow> nat \<Rightarrow> 'b list \<Rightarrow> nat \<Rightarrow> 'b MPI_File option" where
  "write_payload cap fh offset buf tot_bytes =
     (if tot_bytes < cap then Some (MPI_File_write_at fh offset (take tot_bytes buf))
      else write_chunks cap tot_bytes buf fh offset 0 0 cap)"

definition INT_MAX :: nat where
  "INT_MAX = 2147483647"

text \<open>
  The bytes of an object in memory. The function never looks at them: it hands
  addresses to the file interface. A byte is named by the value it belongs to and its
  position in that value, which fixes the byte on any one platform.
\<close>

datatype byte = GraphElem_byte GraphElem nat | GraphWeight_byte GraphWeight nat

text \<open>
  Modelled from the spec: \<open>sizeof(GraphElem)\<close>, a size of the absent header. The file
  layout of the spec has 8-byte integers.
\<close>

definition sizeof_GraphElem :: nat where
  "sizeof_GraphElem = 8"

text \<open>
  Modelled from the spec: \<open>sizeof(Edge)\<close>, a size of the absent header. An edge record
  of the spec is a destination id and a weight of 8 bytes each.
\<close>

definition sizeof_Edge :: nat where
  "sizeof_Edge = 16"

definition bytes_of_GraphElem :: "GraphElem \<Rightarrow> byte list" where
  "bytes_of_GraphElem x = map (GraphElem_byte x) [0..<8]"

definition bytes_of_GraphWeight :: "GraphWeight \<Rightarrow> byte list" where
  "bytes_of_GraphWeight x = map (GraphWeight_byte x) [0..<8]"

definition bytes_of_Edge :: "Edge \<Rightarrow> byte list" where
  "bytes_of_Edge e = bytes_of_GraphElem (tail e) @ bytes_of_GraphWeight (weight e)"

text \<open>
  Process 0 writes the two counts and then the edge counts.
  \<^verbatim>\<open>MPI_File_write_at(fh, 0, &globalNumVertices, sizeof(GraphElem), MPI_BYTE, ...);\<close>
  \<^verbatim>\<open>MPI_File_write_at(fh, sizeof(GraphElem), &globalNumEdges, sizeof(GraphElem), MPI_BYTE, ...);\<close>
  \<^verbatim>\<open>tot_bytes = globalNumVertices * sizeof(GraphElem);\<close>
  \<^verbatim>\<open>offset = 2*sizeof(GraphElem);\<close>
  and the write of \<open>edgeCount.data()\<close>, whole or in chunks.
\<close>

definition write_counts ::
  "byte MPI_File \<Rightarrow> GraphElem \<Rightarrow> GraphElem \<Rightarrow> GraphElem list \<Rightarrow> byte MPI_File option" where
  "write_counts fh globalNumVertices globalNumEdges edgeCount =
     (let fh = MPI_File_write_at fh 0 (bytes_of_GraphElem globalNumVertices);
          fh = MPI_File_write_at fh sizeof_GraphElem (bytes_of_GraphElem globalNumEdges);
          tot_bytes = nat globalNumVertices * sizeof_GraphElem;
          offset = 2 * sizeof_GraphElem
      in write_payload INT_MAX fh offset (concat (map bytes_of_GraphElem edgeCount)) tot_bytes)"

text \<open>
  Every process writes its edges. \<open>dflt\<close> is the edge that the default constructor of
  \<open>Edge\<close> builds (the constructor is in the absent header). \<open>numEdges\<close> was set to
  \<open>rredata.size()\<close> before the sort, which does not change it.
  \<^verbatim>\<open>tot_bytes = numEdges * sizeof(Edge);\<close>
  \<^verbatim>\<open>std::vector<Edge> csrCols(numEdges);\<close>
  \<^verbatim>\<open>for (GraphElem i = 0; i < numEdges; i++) csrCols.emplace_back(rredata[i].j_, rredata[i].w_);\<close>
  \<^verbatim>\<open>offset = 2*sizeof(GraphElem) + (globalNumVertices+1)*sizeof(GraphElem) + e_offset*(sizeof(Edge));\<close>
  and the write of \<open>csrCols.data()\<close>, whole or in chunks.
\<close>

definition csrCols :: "Edge \<Rightarrow> GraphElemTuple list \<Rightarrow> Edge list" where
  "csrCols dflt rredata =
     replicate (length rredata) dflt @ map (\<lambda>t. \<lparr>tail = ej t, weight = ew t\<rparr>) rredata"

definition edges_offset :: "GraphElem \<Rightarrow> nat \<Rightarrow> nat" where
  "edges_offset globalNumVertices e_offset =
     2 * sizeof_GraphElem + nat (globalNumVertices + 1) * sizeof_GraphElem + e_offset * sizeof_Edge"

definition write_edges ::
  "byte MPI_File \<Rightarrow> GraphElem \<Rightarrow> nat \<Rightarrow> Edge \<Rightarrow> GraphElemTuple list \<Rightarrow> byte MPI_File option" where
  "write_edges fh globalNumVertices e_offset dflt rredata =
     (let numEdges = length rredata;
          tot_bytes = numEdges * sizeof_Edge;
          offset = edges_offset globalNumVertices e_offset
      in write_payload INT_MAX fh offset (concat (map bytes_of_Edge (csrCols dflt rredata))) tot_bytes)"

text \<open>
  \<^verbatim>\<open>MPI_Exscan(&numEdges, &e_offset, 1, MPI_GRAPH_TYPE, MPI_SUM, MPI_COMM_WORLD);\<close>
  The sum of the values of the lower ranks. On rank 0 the call leaves the receive
  buffer as it is (the standard gives it no value there), so \<open>e_offset\<close> keeps its 0.
\<close>

definition MPI_Exscan :: "nat list \<Rightarrow> nat \<Rightarrow> nat" where
  "MPI_Exscan numEdges rank = sum_list (take rank numEdges)"

text \<open>The edge writes of the processes \<open>rank, rank + 1, ...\<close>, one after the other.\<close>

fun write_all_edges ::
  "byte MPI_File \<Rightarrow> GraphElem \<Rightarrow> Edge \<Rightarrow> nat list \<Rightarrow> nat \<Rightarrow> GraphElemTuple list list
   \<Rightarrow> byte MPI_File option" where
  "write_all_edges fh V dflt numEdges rank [] = Some fh"
| "write_all_edges fh V dflt numEdges rank (rredata # rest) =
     (case write_edges fh V (MPI_Exscan numEdges rank) dflt rredata of
        None \<Rightarrow> None
      | Some fh' \<Rightarrow> write_all_edges fh' V dflt numEdges (Suc rank) rest)"

section \<open>The whole function, on all processes\<close>

text \<open>
  The inputs are the arguments of \<open>loadParallelFileShards\<close> (\<open>naggr\<close>, which it never
  uses, and \<open>fileOutPath\<close> are left out), the file system \<open>fs\<close>, the initial values
  \<open>junk rank k\<close> of the uninitialised locals, the default edge \<open>dflt\<close>, the sort
  algorithm, and whether the output file can be opened. The result is \<open>None\<close> when a
  write loop never ends, an error when the function stops early, and otherwise the
  file. The processes write disjoint parts of the file; the model lets them write in
  the order of their ranks.
\<close>

definition loadParallelFileShards ::
  "nat \<Rightarrow> string \<Rightarrow> int \<Rightarrow> int \<Rightarrow> bool \<Rightarrow> Weight_t \<Rightarrow> GraphElem
   \<Rightarrow> (string \<Rightarrow> string option) \<Rightarrow> (nat \<Rightarrow> nat \<Rightarrow> line_vars) \<Rightarrow> Edge
   \<Rightarrow> (GraphElemTuple list \<Rightarrow> GraphElemTuple list) \<Rightarrow> bool
   \<Rightarrow> (error + byte MPI_File) option" where
  "loadParallelFileShards nprocs fileInShardsPath fileStartIndex fileEndIndex indexOneBased
       wtype shardCount fs junk dflt sort_impl can_open =
     (if \<not> (fileStartIndex \<ge> 0 \<and> fileEndIndex \<ge> 0 \<and> fileEndIndex \<ge> fileStartIndex)
      then Some (Inl AssertionFailed)
      else
       (let names = fileProc fs fileInShardsPath fileStartIndex fileEndIndex in
        case all_ok (map (\<lambda>rank. read_shard fs names rank indexOneBased wtype shardCount (junk rank))
                         [0..<nprocs]) of
          Inl e \<Rightarrow> Some (Inl e)
        | Inr locals \<Rightarrow>
       (let E = reduce_numEdges locals;
            V = reduce_numVertices indexOneBased locals in
        case all_ok (map (\<lambda>(edgeList, numVertices). distribute V nprocs edgeList) locals) of
          Inl e \<Rightarrow> Some (Inl e)
        | Inr sent \<Rightarrow>
       (case all_ok (map (\<lambda>(edgeCount, outEdges). pack outEdges) sent) of
          Inl e \<Rightarrow> Some (Inl e)
        | Inr sends \<Rightarrow>
       (let received = map (\<lambda>q. MPI_Alltoallv sends q) [0..<nprocs] in
        case MPI_Reduce_SUM (map fst sent) (nat V) of
          Inl e \<Rightarrow> Some (Inl e)
        | Inr reduced \<Rightarrow>
       (let edgeCount = local_prefix_sum reduced (nat V);
            sorted_edges = map (LocalSorter sort_impl) received
        in if \<not> can_open then Some (Inl Aborted)
           else
            (case write_counts \<lparr>contents = (\<lambda>pos. None), calls = []\<rparr> V E edgeCount of
               None \<Rightarrow> None
             | Some fh \<Rightarrow>
                 map_option Inr
                   (write_all_edges fh V dflt (map length sorted_edges) 0 sorted_edges))))))))"

section \<open>Notions used to state the properties\<close>

text \<open>What \<open>outEdges[p]\<close> gains from a list of records.\<close>

definition sent_to :: "GraphElem list \<Rightarrow> nat \<Rightarrow> GraphElemTuple list \<Rightarrow> GraphElemTuple list" where
  "sent_to ps p edgeList =
     concat (map (\<lambda>e. (if owner ps (ei e) = int p then [e] else [])
                      @ (if owner ps (ej e) = int p then [reversed e] else [])) edgeList)"


text \<open>
  The calls that split \<open>n\<close> bytes at \<open>offset\<close> into chunks of \<open>cap\<close> bytes and a
  remainder: the statement of what the loop does.
\<close>

definition chunk_calls :: "nat \<Rightarrow> nat \<Rightarrow> nat \<Rightarrow> (nat \<times> nat) list" where
  "chunk_calls cap offset n =
     map (\<lambda>k. (offset + k * cap, cap)) [0..<n div cap]
     @ (if n mod cap = 0 then [] else [(offset + (n div cap) * cap, n mod cap)])"


text \<open>The vertex ids that occur as an end point in a list of records.\<close>

definition ids :: "GraphElemTuple list \<Rightarrow> GraphElem set" where
  "ids edgeList = ei ` set edgeList \<union> ej ` set edgeList"


section \<open>Inputs of the example runs\<close>

text \<open>A directory \<open>d\<close> that holds the one shard \<open>1__1.csv\<close>, with the given text.\<close>

definition one_shard :: "string \<Rightarrow> string \<Rightarrow> string option" where
  "one_shard text = (\<lambda>fileName. if fileName = ''d/1__1.csv'' then Some text else None)"

text \<open>Initial values of the uninitialised locals, the same in every iteration.\<close>

definition junk_7 :: "nat \<Rightarrow> nat \<Rightarrow> line_vars" where
  "junk_7 = (\<lambda>rank k. (7, 8, 9, 10))"

text \<open>A default edge.\<close>

definition edge_0 :: Edge where
  "edge_0 = \<lparr>tail = - 1, weight = 0\<rparr>"

section \<open>Properties of the partition table\<close>

lemma tdiv_nonneg: "0 \<le> a \<Longrightarrow> 0 < b \<Longrightarrow> tdiv a b = a div b"
  by (simp add: tdiv_def)

lemma length_parts: "length (parts V P) = P + 1"
  by (simp add: parts_def)

lemma parts_nth:
  assumes "0 \<le> V" and "1 \<le> P" and "i \<le> P"
  shows "parts V P ! i = (V * int i) div int P"
proof (cases i)
  case 0
  then show ?thesis by (simp add: parts_def)
next
  case (Suc k)
  with assms have "k < P" by simp
  then have "parts V P ! i = tdiv (V * int (Suc k)) (int P)"
    unfolding parts_def Suc by (simp del: upt_Suc add: nth_map_upt)
  moreover have "0 \<le> V * int (Suc k)" using assms(1) by simp
  ultimately show ?thesis using assms(2) Suc by (simp add: tdiv_nonneg)
qed

lemma parts_mono:
  assumes "0 \<le> V" and "1 \<le> P" and "i \<le> j" and "j \<le> P"
  shows "parts V P ! i \<le> parts V P ! j"
proof -
  have "V * int i \<le> V * int j" using assms(1,3) by (simp add: mult_left_mono)
  then have "(V * int i) div int P \<le> (V * int j) div int P"
    using assms(2) by (simp add: zdiv_mono1)
  with assms show ?thesis by (simp add: parts_nth)
qed

lemma sorted_parts:
  assumes "0 \<le> V" and "1 \<le> P"
  shows "sorted (parts V P)"
  unfolding sorted_iff_nth_mono
  using assms by (auto simp: length_parts intro!: parts_mono)

lemma ub_loop_spec:
  "sorted xs \<Longrightarrow> first + len \<le> length xs \<Longrightarrow>
   (\<forall>k<first. xs ! k \<le> val) \<Longrightarrow>
   (\<forall>k. first + len \<le> k \<and> k < length xs \<longrightarrow> val < xs ! k) \<Longrightarrow>
   first \<le> ub_loop xs val first len \<and> ub_loop xs val first len \<le> first + len \<and>
   (\<forall>k<ub_loop xs val first len. xs ! k \<le> val) \<and>
   (\<forall>k. ub_loop xs val first len \<le> k \<and> k < length xs \<longrightarrow> val < xs ! k)"
proof (induction len arbitrary: first rule: less_induct)
  case (less len)
  show ?case
  proof (cases "0 < len")
    case False
    then have "ub_loop xs val first len = first" by (subst ub_loop.simps) simp
    with less.prems False show ?thesis by simp
  next
    case True
    define half where "half = len div 2"
    define middle where "middle = first + half"
    have hl: "half < len" using True by (simp add: half_def)
    have mid: "middle < length xs" using hl less.prems(2) by (simp add: middle_def)
    show ?thesis
    proof (cases "val < xs ! middle")
      case lt: True
      have hi: "\<forall>k. first + half \<le> k \<and> k < length xs \<longrightarrow> val < xs ! k"
      proof (intro allI impI)
        fix k assume k: "first + half \<le> k \<and> k < length xs"
        then have "xs ! middle \<le> xs ! k"
          using less.prems(1) by (simp add: middle_def sorted_nth_mono)
        with lt show "val < xs ! k" by simp
      qed
      have eq: "ub_loop xs val first len = ub_loop xs val first half"
        using True lt by (subst ub_loop.simps) (simp add: half_def middle_def Let_def)
      have le: "first + half \<le> length xs" using mid by (simp add: middle_def)
      from less.IH[OF hl less.prems(1) le less.prems(3) hi] hl show ?thesis
        unfolding eq by auto
    next
      case ge: False
      have lo: "\<forall>k<middle + 1. xs ! k \<le> val"
      proof (intro allI impI)
        fix k assume k: "k < middle + 1"
        then have "xs ! k \<le> xs ! middle"
          using less.prems(1) mid by (simp add: sorted_nth_mono)
        with ge show "xs ! k \<le> val" by simp
      qed
      have eq: "ub_loop xs val first len = ub_loop xs val (middle + 1) (len - half - 1)"
        using True ge by (subst ub_loop.simps) (simp add: half_def middle_def Let_def)
      have l2: "len - half - 1 < len" using True by simp
      have sum: "middle + 1 + (len - half - 1) = first + len"
        using hl by (simp add: middle_def)
      have le: "middle + 1 + (len - half - 1) \<le> length xs"
        using less.prems(2) sum by simp
      have hi: "\<forall>k. middle + 1 + (len - half - 1) \<le> k \<and> k < length xs \<longrightarrow> val < xs ! k"
        using less.prems(4) sum by simp
      from less.IH[OF l2 less.prems(1) le lo hi] show ?thesis
        unfolding eq sum by (auto simp: middle_def)
    qed
  qed
qed

lemma upper_bound_spec:
  assumes "sorted xs"
  shows "upper_bound xs val \<le> length xs
         \<and> (\<forall>k<upper_bound xs val. xs ! k \<le> val)
         \<and> (\<forall>k. upper_bound xs val \<le> k \<and> k < length xs \<longrightarrow> val < xs ! k)"
  using ub_loop_spec[of xs 0 "length xs" val] assms by (simp add: upper_bound_def)

text \<open>
  The owner of a vertex of \<open>[0, V)\<close>: the search ends strictly inside the table, the
  vertex lies in the interval of the rank found, and no other rank has it.
\<close>

lemma owner_in_interval:
  assumes V: "0 \<le> V" and P: "1 \<le> P" and v: "0 \<le> v" "v < V"
  shows "0 \<le> owner (parts V P) v \<and> owner (parts V P) v < int P
         \<and> parts V P ! nat (owner (parts V P) v) \<le> v
         \<and> v < parts V P ! (nat (owner (parts V P) v) + 1)"
proof -
  let ?ps = "parts V P"
  let ?u = "upper_bound ?ps v"
  have srt: "sorted ?ps" using V P by (rule sorted_parts)
  note ub = upper_bound_spec[OF srt, of v]
  have p0: "?ps ! 0 = 0" by (simp add: parts_def)
  have pP: "?ps ! P = V" using V P by (simp add: parts_nth)
  have pos: "0 < ?u"
  proof (rule ccontr)
    assume "\<not> 0 < ?u"
    then have "v < ?ps ! 0" using ub by (simp add: length_parts)
    with p0 v show False by simp
  qed
  have le: "?u \<le> P"
  proof (rule ccontr)
    assume "\<not> ?u \<le> P"
    then have "?ps ! P \<le> v" using ub by simp
    with pP v show False by simp
  qed
  have lo: "?ps ! (?u - 1) \<le> v" using ub pos by simp
  have hi: "v < ?ps ! ?u" using ub le by (simp add: length_parts)
  have n: "nat (owner ?ps v) = ?u - 1" using pos by (simp add: owner_def)
  show ?thesis using pos le lo hi unfolding n by (simp add: owner_def)
qed

lemma owner_unique:
  assumes V: "0 \<le> V" and P: "1 \<le> P" and v: "0 \<le> v" "v < V"
    and r: "r < P" "parts V P ! r \<le> v" "v < parts V P ! (r + 1)"
  shows "owner (parts V P) v = int r"
proof -
  let ?ps = "parts V P"
  let ?o = "nat (owner ?ps v)"
  note o = owner_in_interval[OF V P v]
  have oP: "?o < P" using o by linarith
  have "\<not> ?o < r"
  proof
    assume "?o < r"
    then have "?ps ! (?o + 1) \<le> ?ps ! r" using r(1) by (intro parts_mono[OF V P]) simp_all
    with o r(2) show False by simp
  qed
  moreover have "\<not> r < ?o"
  proof
    assume "r < ?o"
    then have "?ps ! (r + 1) \<le> ?ps ! ?o" using oP by (intro parts_mono[OF V P]) simp_all
    with o r(3) show False by simp
  qed
  ultimately have "?o = r" by simp
  moreover have "0 \<le> owner ?ps v" using o by simp
  ultimately show ?thesis by linarith
qed

text \<open>
  Claim C7. For every vertex count \<open>V \<ge> 0\<close> and process count \<open>P \<ge> 1\<close> the table has
  the entries \<open>parts[i] = floor (V * i / P)\<close> for \<open>i\<close> in \<open>[0, P]\<close>, so it starts at 0,
  ends at \<open>V\<close> and never decreases; and for every vertex \<open>v\<close> of \<open>[0, V)\<close> the lookup
  (binary-search \<open>upper_bound\<close>, minus one) returns a rank \<open>r\<close> of \<open>[0, P)\<close> with
  \<open>parts[r] \<le> v < parts[r+1]\<close>, the only such rank. In particular a vertex equal to
  the boundary \<open>parts[i]\<close> of an interval \<open>i\<close> that holds it (\<open>parts[i] < parts[i+1]\<close>) is
  given to rank \<open>i\<close>.
\<close>

theorem C7_partition_table_and_owner:
  assumes "0 \<le> V" and "1 \<le> P"
  shows "length (parts V P) = P + 1
       \<and> (\<forall>i. i \<le> P \<longrightarrow> parts V P ! i = \<lfloor>(real_of_int V * real i) / real P\<rfloor>)
       \<and> parts V P ! 0 = 0
       \<and> parts V P ! P = V
       \<and> sorted (parts V P)
       \<and> (\<forall>v. 0 \<le> v \<and> v < V \<longrightarrow>
            0 \<le> owner (parts V P) v \<and> owner (parts V P) v < int P
            \<and> parts V P ! nat (owner (parts V P) v) \<le> v
            \<and> v < parts V P ! (nat (owner (parts V P) v) + 1)
            \<and> (\<forall>r. r < P \<and> parts V P ! r \<le> v \<and> v < parts V P ! (r + 1)
                  \<longrightarrow> owner (parts V P) v = int r))
       \<and> (\<forall>i. i < P \<and> parts V P ! i < parts V P ! (i + 1)
            \<longrightarrow> owner (parts V P) (parts V P ! i) = int i)"
proof -
  have floor_eq: "parts V P ! i = \<lfloor>(real_of_int V * real i) / real P\<rfloor>" if "i \<le> P" for i
  proof -
    have "\<lfloor>real_of_int (V * int i) / real_of_int (int P)\<rfloor> = (V * int i) div int P"
      by (rule floor_divide_of_int_eq)
    then show ?thesis using assms that by (simp add: parts_nth)
  qed
  have p0: "parts V P ! 0 = 0" by (simp add: parts_def)
  have pP: "parts V P ! P = V" using assms by (simp add: parts_nth)
  have bnd: "owner (parts V P) (parts V P ! i) = int i"
    if "i < P" and "parts V P ! i < parts V P ! (i + 1)" for i
  proof -
    have "parts V P ! 0 \<le> parts V P ! i" using that by (intro parts_mono[OF assms]) simp_all
    then have lo: "0 \<le> parts V P ! i" by (simp add: p0)
    have "parts V P ! (i + 1) \<le> parts V P ! P" using that by (intro parts_mono[OF assms]) simp_all
    then have hi: "parts V P ! i < V" using that(2) by (simp add: pP)
    show ?thesis by (rule owner_unique[OF assms lo hi that(1) order_refl that(2)])
  qed
  show ?thesis
    using length_parts[of V P] floor_eq p0 pP sorted_parts[OF assms]
      owner_in_interval[OF assms] owner_unique[OF assms] bnd
    by (intro conjI allI impI) blast+
qed

theorem C7_partition_table_and_owner_witness:
  "(0::int) \<le> 10 \<and> (1::nat) \<le> 3
   \<and> parts 10 3 = [0, 3, 6, 10]
   \<and> parts 10 3 ! 2 = \<lfloor>(real_of_int 10 * real (2::nat)) / real (3::nat)\<rfloor>
   \<and> owner (parts 10 3) 6 = 2
   \<and> owner (parts 10 3) 5 = 1
   \<and> owner (parts 10 3) (parts 10 3 ! 1) = 1"
proof -
  have pre: "(0::int) \<le> 10" "(1::nat) \<le> 3" by simp_all
  note c7 = C7_partition_table_and_owner[OF pre]
  have p: "parts 10 3 = [0, 3, 6, 10]" by code_simp
  have fl: "parts 10 3 ! 2 = \<lfloor>(real_of_int 10 * real (2::nat)) / real (3::nat)\<rfloor>"
    using c7 by simp
  have o6: "owner (parts 10 3) 6 = 2" by code_simp
  have o5: "owner (parts 10 3) 5 = 1" by code_simp
  have o3: "owner (parts 10 3) (parts 10 3 ! 1) = 1" by code_simp
  show ?thesis using pre p fl o6 o5 o3 by simp
qed

section \<open>Properties of the read loop\<close>

lemma getline_rest: "getline cs = (line, rest, False) \<Longrightarrow> length rest < length cs"
  by (induction cs arbitrary: line) (auto split: if_splits prod.splits)

lemma getline_eof: "getline cs = (line, rest, True) \<Longrightarrow> count_list cs (CHR 0x0A) = 0"
  by (induction cs arbitrary: line) (auto split: if_splits prod.splits)

lemma getline_newline:
  "getline cs = (line, rest, False) \<Longrightarrow> count_list cs (CHR 0x0A) = Suc (count_list rest (CHR 0x0A))"
  by (induction cs arbitrary: line) (auto split: if_splits prod.splits)

lemma loop_body_appends_one:
  "length (fst (loop_body wtype indexOneBased v_lo v_hi line junk (edgeList, numVertices)))
   = Suc (length edgeList)"
  by (simp add: loop_body_def Let_def split: prod.splits)

lemma read_loop_length:
  "length (fst (read_loop wtype indexOneBased v_lo v_hi junk ifs k st))
   = length (fst st) + Suc (count_list ifs (CHR 0x0A))"
proof (induction "length ifs" arbitrary: ifs k st rule: less_induct)
  case less
  obtain line rest eof where g: "getline ifs = (line, rest, eof)" by (cases "getline ifs") auto
  obtain edgeList numVertices where st: "st = (edgeList, numVertices)" by (cases st)
  let ?st' = "loop_body wtype indexOneBased v_lo v_hi line (junk k) st"
  have l': "length (fst ?st') = Suc (length (fst st))"
    unfolding st by (simp add: loop_body_appends_one)
  show ?case
  proof (cases eof)
    case True
    then have "read_loop wtype indexOneBased v_lo v_hi junk ifs k st = ?st'"
      using g by (subst read_loop.simps) simp
    moreover have "count_list ifs (CHR 0x0A) = 0" using g True by (auto dest: getline_eof)
    ultimately show ?thesis using l' by simp
  next
    case False
    then have "read_loop wtype indexOneBased v_lo v_hi junk ifs k st
               = read_loop wtype indexOneBased v_lo v_hi junk rest (Suc k) ?st'"
      using g by (subst read_loop.simps) simp
    moreover have "length rest < length ifs" using g False by (auto dest: getline_rest)
    moreover have "count_list ifs (CHR 0x0A) = Suc (count_list rest (CHR 0x0A))"
      using g False by (auto dest: getline_newline)
    ultimately show ?thesis using less.hyps[of rest "Suc k" ?st'] l' by simp
  qed
qed

text \<open>
  \<open>numVertices\<close> is the running maximum of the end points appended, starting at 0: at the end
  of the read loop it is the largest id of the records of the process, and at least 0.
\<close>

lemma loop_body_max:
  assumes "loop_body wtype indexOneBased v_lo v_hi line junk (edgeList, numVertices) = (edgeList', numVertices')"
    and "numVertices = Max (insert 0 (ids edgeList))"
  shows "numVertices' = Max (insert 0 (ids edgeList'))"
proof -
  obtain v0 v1 info w where p: "parse_line wtype line junk = (v0, v1, info, w)"
    by (cases "parse_line wtype line junk") auto
  define a where "a = (if indexOneBased then v0 - 1 else v0) + v_lo"
  define b where "b = (if indexOneBased then v1 - 1 else v1) + v_hi"
  have el: "edgeList' = edgeList @ [\<lparr>ei = a, ej = b, ew = w\<rparr>]"
    and nv: "numVertices' = max (max numVertices a) b"
    using assms(1) by (auto simp: loop_body_def p Let_def a_def b_def max_def split: if_splits)
  have "ids edgeList' = insert a (insert b (ids edgeList))"
    by (auto simp: ids_def el)
  moreover have "finite (ids edgeList)" by (simp add: ids_def)
  ultimately have "insert 0 (ids edgeList') = insert a (insert b (insert 0 (ids edgeList)))"
    by auto
  then have "Max (insert 0 (ids edgeList')) = max a (max b (Max (insert 0 (ids edgeList))))"
    using \<open>finite (ids edgeList)\<close> by (simp del: Max_insert add: Max_insert[of "insert _ _"])
  then show ?thesis using nv assms(2) by (simp add: max.commute max.left_commute)
qed

lemma read_loop_max:
  "read_loop wtype indexOneBased v_lo v_hi junk ifs k (edgeList, numVertices) = (edgeList', numVertices')
   \<Longrightarrow> numVertices = Max (insert 0 (ids edgeList))
   \<Longrightarrow> numVertices' = Max (insert 0 (ids edgeList'))"
proof (induction "length ifs" arbitrary: ifs k edgeList numVertices rule: less_induct)
  case less
  obtain line rest eof where g: "getline ifs = (line, rest, eof)" by (cases "getline ifs") auto
  obtain el1 nv1 where b: "loop_body wtype indexOneBased v_lo v_hi line (junk k) (edgeList, numVertices) = (el1, nv1)"
    by (cases "loop_body wtype indexOneBased v_lo v_hi line (junk k) (edgeList, numVertices)") auto
  have inv1: "nv1 = Max (insert 0 (ids el1))" using b less.prems(2) by (rule loop_body_max)
  show ?case
  proof (cases eof)
    case True
    then have "read_loop wtype indexOneBased v_lo v_hi junk ifs k (edgeList, numVertices) = (el1, nv1)"
      using g b by (subst read_loop.simps) simp
    with less.prems(1) have "el1 = edgeList'" "nv1 = numVertices'" by simp_all
    with inv1 show ?thesis by simp
  next
    case False
    then have "read_loop wtype indexOneBased v_lo v_hi junk ifs k (edgeList, numVertices)
               = read_loop wtype indexOneBased v_lo v_hi junk rest (Suc k) (el1, nv1)"
      using g b by (subst read_loop.simps) simp
    moreover have "length rest < length ifs" using g False by (auto dest: getline_rest)
    ultimately show ?thesis using less.hyps[of rest "Suc k" el1 nv1] less.prems(1) inv1 by simp
  qed
qed

lemma numVertices_is_max:
  "read_loop wtype indexOneBased v_lo v_hi junk ifs 0 ([], 0) = (edgeList, numVertices)
   \<Longrightarrow> numVertices = Max (insert 0 (ids edgeList))"
  by (erule read_loop_max) (simp add: ids_def)

lemma read_3_keeps_w: "snd (snd (snd (snd (read_3 (iss, v0, v1, info, w))))) = w"
  by (simp add: read_3_def Let_def split: prod.splits)

lemma no_weight: "snd (snd (snd (parse_line NO_WEIGHT line (v0, v1, info, w)))) = w"
  by (simp add: parse_line_def Let_def read_3_keeps_w)

text \<open>
  Claim C6 fails on the code. The loop appends one tuple for every call of \<open>getline\<close>,
  and it calls \<open>getline\<close> once more than the file has newline characters: the test
  \<open>!ifs.eof()\<close> comes before the read. So a shard of one data line that ends in a
  newline gives two tuples, and an empty shard gives one. The extra tuple is built from
  the uninitialised locals (here 7, 8 and 10), and it also enters \<open>numVertices\<close>.
\<close>

theorem C6_one_tuple_per_getline:
  "length (fst (read_loop wtype indexOneBased v_lo v_hi junk ifs 0 ([], 0)))
     = Suc (count_list ifs (CHR 0x0A))
   \<and> read_loop ORG_WEIGHT False 0 0 (junk_7 0) ''0,1,3,2.0\<newline>'' 0 ([], 0)
     = ([\<lparr>ei = 0, ej = 1, ew = 2\<rparr>, \<lparr>ei = 7, ej = 8, ew = 10\<rparr>], 8)
   \<and> read_loop ORG_WEIGHT False 0 0 (junk_7 0) '''' 0 ([], 0)
     = ([\<lparr>ei = 7, ej = 8, ew = 10\<rparr>], 8)"
proof -
  have a: "read_loop ORG_WEIGHT False 0 0 (junk_7 0) ''0,1,3,2.0\<newline>'' 0 ([], 0)
     = ([\<lparr>ei = 0, ej = 1, ew = 2\<rparr>, \<lparr>ei = 7, ej = 8, ew = 10\<rparr>], 8)" by code_simp
  have b: "read_loop ORG_WEIGHT False 0 0 (junk_7 0) '''' 0 ([], 0)
     = ([\<lparr>ei = 7, ej = 8, ew = 10\<rparr>], 8)" by code_simp
  show ?thesis using read_loop_length[of wtype indexOneBased v_lo v_hi junk ifs 0 "([], 0)"] a b
    by simp
qed

text \<open>
  Claim C3 fails on the code. In the unweighted mode nothing is ever stored in \<open>w\<close>:
  the weight of the tuple is the value the uninitialised local held, not zero. In the
  raw mode the three-field read runs after the four-field read on the same stream: on
  a line with something after the weight it stores 0 in \<open>v0\<close> when the rest does not
  start with a number, and otherwise the numbers it finds in \<open>v0\<close>, \<open>v1\<close>, \<open>info\<close>.
\<close>

theorem C3_two_modes_misread:
  "snd (snd (snd (parse_line NO_WEIGHT line (v0, v1, info, w)))) = w
   \<and> parse_line NO_WEIGHT ''0,1,3'' (7, 8, 9, 10) = (0, 1, 3, 10)
   \<and> parse_line ORG_WEIGHT ''5,1,3,2.5,9'' (7, 8, 9, 10) = (0, 1, 3, 5 / 2)
   \<and> parse_line ORG_WEIGHT ''5,1,3,2.5 7,8,9'' (7, 8, 9, 10) = (7, 8, 9, 5 / 2)"
proof -
  have a: "parse_line NO_WEIGHT ''0,1,3'' (7, 8, 9, 10) = (0, 1, 3, 10)" by code_simp
  have b: "parse_line ORG_WEIGHT ''5,1,3,2.5,9'' (7, 8, 9, 10) = (0, 1, 3, 5 / 2)" by code_simp
  have c: "parse_line ORG_WEIGHT ''5,1,3,2.5 7,8,9'' (7, 8, 9, 10) = (7, 8, 9, 5 / 2)" by code_simp
  show ?thesis by (intro conjI no_weight a b c)
qed

section \<open>Properties of the redistribution\<close>

lemma count_and_bucket_ok:
  assumes "0 \<le> vertex + 1" and "vertex + 1 < int (length edgeCount)"
    and "0 \<le> owner ps vertex" and "owner ps vertex < int (length outEdges)"
  shows "count_and_bucket ps vertex e (edgeCount, outEdges)
         = Inr (edgeCount[nat (vertex + 1) := edgeCount ! nat (vertex + 1) + 1],
                outEdges[nat (owner ps vertex) := outEdges ! nat (owner ps vertex) @ [e]])"
  using assms by (simp add: count_and_bucket_def Let_def)

lemma bucket_loop_in_range:
  assumes V: "0 \<le> V" and P: "1 \<le> P"
  shows "(\<forall>e \<in> set edgeList. 0 \<le> ei e \<and> ei e < V \<and> 0 \<le> ej e \<and> ej e < V) \<Longrightarrow>
     length edgeCount = nat (V + 1) \<Longrightarrow> length outEdges = P \<Longrightarrow>
     \<exists>edgeCount' outEdges'.
       bucket_loop (parts V P) edgeList (edgeCount, outEdges) = Inr (edgeCount', outEdges')
       \<and> length edgeCount' = nat (V + 1) \<and> length outEdges' = P
       \<and> (\<forall>p<P. outEdges' ! p = outEdges ! p @ sent_to (parts V P) p edgeList)"
proof (induction edgeList arbitrary: edgeCount outEdges)
  case Nil
  then show ?case by (simp add: sent_to_def)
next
  case (Cons e edgeList)
  let ?ps = "parts V P"
  have ei: "0 \<le> ei e" "ei e < V" and ej: "0 \<le> ej e" "ej e < V" using Cons.prems(1) by simp_all
  note oi = owner_in_interval[OF V P ei]
  note oj = owner_in_interval[OF V P ej]
  define ec1 where "ec1 = edgeCount[nat (ei e + 1) := edgeCount ! nat (ei e + 1) + 1]"
  define oe1 where "oe1 = outEdges[nat (owner ?ps (ei e)) := outEdges ! nat (owner ?ps (ei e)) @ [e]]"
  define ec2 where "ec2 = ec1[nat (ej e + 1) := ec1 ! nat (ej e + 1) + 1]"
  define oe2 where "oe2 = oe1[nat (owner ?ps (ej e)) := oe1 ! nat (owner ?ps (ej e)) @ [reversed e]]"
  have s1: "count_and_bucket ?ps (ei e) e (edgeCount, outEdges) = Inr (ec1, oe1)"
    unfolding ec1_def oe1_def
    using ei oi Cons.prems(2,3) by (intro count_and_bucket_ok) simp_all
  have l1: "length ec1 = nat (V + 1)" "length oe1 = P"
    using Cons.prems(2,3) by (simp_all add: ec1_def oe1_def)
  have s2: "count_and_bucket ?ps (ej e) (reversed e) (ec1, oe1) = Inr (ec2, oe2)"
    unfolding ec2_def oe2_def
    using ej oj l1 by (intro count_and_bucket_ok) simp_all
  have l2: "length ec2 = nat (V + 1)" "length oe2 = P"
    using l1 by (simp_all add: ec2_def oe2_def)
  have rest: "\<forall>e \<in> set edgeList. 0 \<le> ei e \<and> ei e < V \<and> 0 \<le> ej e \<and> ej e < V"
    using Cons.prems(1) by simp
  from Cons.IH[OF rest l2] obtain edgeCount' outEdges' where
    r: "bucket_loop ?ps edgeList (ec2, oe2) = Inr (edgeCount', outEdges')"
    and l: "length edgeCount' = nat (V + 1)" "length outEdges' = P"
    and c: "\<forall>p<P. outEdges' ! p = oe2 ! p @ sent_to ?ps p edgeList"
    by blast
  have step: "bucket_loop ?ps (e # edgeList) (edgeCount, outEdges) = Inr (edgeCount', outEdges')"
    by (simp add: s1 s2 r)
  have "outEdges' ! p = outEdges ! p @ sent_to ?ps p (e # edgeList)" if p: "p < P" for p
  proof -
    have "oe1 ! p = outEdges ! p @ (if owner ?ps (ei e) = int p then [e] else [])"
      using p oi Cons.prems(3) by (auto simp: oe1_def nth_list_update)
    moreover have "oe2 ! p = oe1 ! p @ (if owner ?ps (ej e) = int p then [reversed e] else [])"
      using p oj l1 by (auto simp: oe2_def nth_list_update)
    ultimately show ?thesis using c p by (simp add: sent_to_def)
  qed
  with step l show ?case by blast
qed

lemma length_sent_to_all:
  assumes V: "0 \<le> V" and P: "1 \<le> P"
  shows "(\<forall>e \<in> set edgeList. 0 \<le> ei e \<and> ei e < V \<and> 0 \<le> ej e \<and> ej e < V) \<Longrightarrow>
         (\<Sum>p<P. length (sent_to (parts V P) p edgeList)) = 2 * length edgeList"
proof (induction edgeList)
  case Nil
  then show ?case by (simp add: sent_to_def)
next
  case (Cons e edgeList)
  let ?ps = "parts V P"
  have ei: "0 \<le> ei e" "ei e < V" and ej: "0 \<le> ej e" "ej e < V" using Cons.prems by simp_all
  note oi = owner_in_interval[OF V P ei]
  note oj = owner_in_interval[OF V P ej]
  have one: "(\<Sum>p<P. if o' = int p then (1::nat) else 0) = 1" if "0 \<le> o'" "o' < int P" for o'
  proof -
    have "(\<Sum>p<P. if o' = int p then (1::nat) else 0) = (\<Sum>p<P. if p = nat o' then 1 else 0)"
      using that by (intro sum.cong) auto
    also have "\<dots> = 1" using that by simp
    finally show ?thesis .
  qed
  have "(\<Sum>p<P. length (sent_to ?ps p (e # edgeList)))
        = (\<Sum>p<P. (if owner ?ps (ei e) = int p then 1 else 0)
                  + (if owner ?ps (ej e) = int p then 1 else 0)
                  + length (sent_to ?ps p edgeList))"
    by (intro sum.cong) (auto simp: sent_to_def)
  also have "\<dots> = (\<Sum>p<P. if owner ?ps (ei e) = int p then 1 else 0)
                 + (\<Sum>p<P. if owner ?ps (ej e) = int p then 1 else 0)
                 + (\<Sum>p<P. length (sent_to ?ps p edgeList))"
    by (simp add: sum.distrib)
  also have "\<dots> = 1 + 1 + 2 * length edgeList"
    using one[of "owner ?ps (ei e)"] one[of "owner ?ps (ej e)"] oi oj Cons by simp
  finally show ?case by simp
qed

lemma distribute_in_range:
  assumes "0 \<le> V" and "1 \<le> P"
    and "\<forall>e \<in> set edgeList. 0 \<le> ei e \<and> ei e < V \<and> 0 \<le> ej e \<and> ej e < V"
  shows "\<exists>edgeCount outEdges.
       distribute V P edgeList = Inr (edgeCount, outEdges)
       \<and> length outEdges = P
       \<and> (\<forall>p<P. outEdges ! p = sent_to (parts V P) p edgeList)
       \<and> (\<Sum>p<P. length (outEdges ! p)) = 2 * length edgeList"
proof -
  from bucket_loop_in_range[OF assms(1,2,3), of "replicate (nat (V + 1)) 0" "replicate P []"]
  obtain edgeCount outEdges where
    r: "distribute V P edgeList = Inr (edgeCount, outEdges)" and l: "length outEdges = P"
    and c: "\<forall>p<P. outEdges ! p = replicate P [] ! p @ sent_to (parts V P) p edgeList"
    unfolding distribute_def by auto
  have c': "\<forall>p<P. outEdges ! p = sent_to (parts V P) p edgeList" using c by simp
  then have "(\<Sum>p<P. length (outEdges ! p)) = (\<Sum>p<P. length (sent_to (parts V P) p edgeList))"
    by simp
  with length_sent_to_all[OF assms] r l c' show ?thesis by auto
qed

subsection \<open>The send buffer and the exchange\<close>

lemma send_counts_foldl:
  "foldl (\<lambda>(ssize, sdispls, spos) outEdges_p.
            (ssize @ [length outEdges_p], sdispls @ [spos], spos + length outEdges_p))
         (ssize, sdispls, spos) outEdges
   = (ssize @ map length outEdges,
      sdispls @ map (\<lambda>p. spos + sum_list (map length (take p outEdges))) [0..<length outEdges],
      spos + sum_list (map length outEdges))"
proof (induction outEdges arbitrary: ssize sdispls spos)
  case Nil
  then show ?case by simp
next
  case (Cons g outEdges)
  have "map (\<lambda>p. spos + sum_list (map length (take p (g # outEdges)))) [0..<length (g # outEdges)]
        = spos # map (\<lambda>p. spos + length g + sum_list (map length (take p outEdges))) [0..<length outEdges]"
    by (simp add: upt_conv_Cons map_Suc_upt[symmetric] add.assoc del: upt_Suc)
  then show ?case by (simp add: Cons.IH)
qed

lemma send_counts_eq:
  "send_counts outEdges
   = (map length outEdges,
      map (\<lambda>p. sum_list (map length (take p outEdges))) [0..<length outEdges],
      sum_list (map length outEdges))"
  unfolding send_counts_def by (simp add: send_counts_foldl)

lemma pack_loop_stops:
  "outEdges \<noteq> [] \<Longrightarrow> last outEdges = [] \<Longrightarrow>
   length copied + sum_list (map length outEdges) = n \<Longrightarrow>
   pack_loop n outEdges copied = Inl OutOfBounds"
proof (induction outEdges arbitrary: copied)
  case Nil
  then show ?case by simp
next
  case (Cons g outEdges)
  show ?case
  proof (cases "n \<le> length copied")
    case True
    then show ?thesis by simp
  next
    case False
    then have ne: "outEdges \<noteq> []" using Cons.prems by (cases outEdges) auto
    then have "last outEdges = []" using Cons.prems(2) by simp
    moreover have "length (copied @ g) + sum_list (map length outEdges) = n"
      using Cons.prems(3) by simp
    ultimately have "pack_loop n outEdges (copied @ g) = Inl OutOfBounds"
      using ne by (intro Cons.IH)
    with False show ?thesis by simp
  qed
qed

lemma pack_loop_ok:
  "outEdges \<noteq> [] \<Longrightarrow> last outEdges \<noteq> [] \<Longrightarrow>
   length copied + sum_list (map length outEdges) = n \<Longrightarrow>
   pack_loop n outEdges copied = Inr (copied @ concat outEdges)"
proof (induction outEdges arbitrary: copied)
  case Nil
  then show ?case by simp
next
  case (Cons g outEdges)
  have pos: "0 < sum_list (map length (g # outEdges))"
  proof -
    define xs where "xs = g # outEdges"
    have "last xs \<in> set xs" unfolding xs_def by (rule last_in_set) simp
    then have "length (last xs) \<in> set (map length xs)" by simp
    then have "length (last xs) \<le> sum_list (map length xs)" by (simp add: member_le_sum_list del: set_map)
    moreover have "0 < length (last xs)" using Cons.prems(2) by (simp add: xs_def)
    ultimately show ?thesis unfolding xs_def by linarith
  qed
  then have lt: "\<not> n \<le> length copied" using Cons.prems(3) by (cases g) simp_all
  show ?case
  proof (cases outEdges)
    case Nil
    with lt show ?thesis by simp
  next
    case (Cons g' rest)
    then have "last outEdges \<noteq> []" using Cons.prems(2) by simp
    moreover have "length (copied @ g) + sum_list (map length outEdges) = n"
      using Cons.prems(3) by simp
    moreover have "outEdges \<noteq> []" using Cons by simp
    ultimately have "pack_loop n outEdges (copied @ g) = Inr ((copied @ g) @ concat outEdges)"
      by (intro Cons.IH)
    with lt show ?thesis by simp
  qed
qed

text \<open>
  The copy loop stops with an index outside the send buffer exactly when the process
  has nothing for the last process; otherwise the send buffer is the groups one after
  the other.
\<close>

lemma pack_stops:
  "outEdges \<noteq> [] \<Longrightarrow> last outEdges = [] \<Longrightarrow> pack outEdges = Inl OutOfBounds"
  by (simp add: pack_def send_counts_eq pack_loop_stops)

lemma pack_ok:
  "outEdges \<noteq> [] \<Longrightarrow> last outEdges \<noteq> [] \<Longrightarrow>
   pack outEdges = Inr (concat outEdges, map length outEdges,
                        map (\<lambda>p. sum_list (map length (take p outEdges))) [0..<length outEdges])"
  by (simp add: pack_def send_counts_eq pack_loop_ok)

lemma segment_of_concat:
  "q < length outEdges \<Longrightarrow>
   take (length (outEdges ! q)) (drop (sum_list (map length (take q outEdges))) (concat outEdges))
   = outEdges ! q"
proof (induction outEdges arbitrary: q)
  case Nil
  then show ?case by simp
next
  case (Cons g outEdges)
  then show ?case by (cases q) simp_all
qed

text \<open>
  When every end point of every record lies in \<open>[0, V)\<close> and every process has a tuple
  for the last process, every process buckets two tuples per record, \<open>(u, v, w)\<close> for
  the owner of \<open>u\<close> and \<open>(v, u, w)\<close> for the owner of \<open>v\<close>; process \<open>q\<close> receives the
  tuples bucketed for it, and the counts received add up to \<open>globalNumEdges\<close>.
\<close>

lemma redistribution_in_range:
  assumes V: "0 \<le> V" and P: "1 \<le> P"
  shows "(\<forall>l \<in> set locals. \<forall>e \<in> set (fst l). 0 \<le> ei e \<and> ei e < V \<and> 0 \<le> ej e \<and> ej e < V) \<Longrightarrow>
     (\<forall>l \<in> set locals. sent_to (parts V P) (P - 1) (fst l) \<noteq> []) \<Longrightarrow>
     \<exists>sent sends.
        all_ok (map (\<lambda>(edgeList, numVertices). distribute V P edgeList) locals) = Inr sent
        \<and> all_ok (map (\<lambda>(edgeCount, outEdges). pack outEdges) sent) = Inr sends
        \<and> (\<forall>q<P. MPI_Alltoallv sends q = concat (map (\<lambda>l. sent_to (parts V P) q (fst l)) locals))
        \<and> int (\<Sum>q<P. length (MPI_Alltoallv sends q)) = reduce_numEdges locals"
proof (induction locals)
  case Nil
  then show ?case by (simp add: MPI_Alltoallv_def reduce_numEdges_def MPI_SUM_def)
next
  case (Cons l locals)
  let ?ps = "parts V P"
  obtain edgeList numVertices where l: "l = (edgeList, numVertices)" by (cases l)
  have rng: "\<forall>e \<in> set edgeList. 0 \<le> ei e \<and> ei e < V \<and> 0 \<le> ej e \<and> ej e < V"
    using Cons.prems l by simp
  from distribute_in_range[OF V P rng] obtain edgeCount outEdges where
    d: "distribute V P edgeList = Inr (edgeCount, outEdges)" and len: "length outEdges = P"
    and c: "\<forall>p<P. outEdges ! p = sent_to ?ps p edgeList"
    and n: "(\<Sum>p<P. length (outEdges ! p)) = 2 * length edgeList"
    by blast
  have ne: "outEdges \<noteq> []" using len P by auto
  have "last outEdges = outEdges ! (P - 1)" using ne len by (simp add: last_conv_nth)
  also have "\<dots> = sent_to ?ps (P - 1) edgeList" using c P by simp
  finally have lst: "last outEdges \<noteq> []" using Cons.prems(2) l by simp
  define sd where "sd = (concat outEdges, map length outEdges,
                        map (\<lambda>p. sum_list (map length (take p outEdges))) [0..<length outEdges])"
  have pk: "pack outEdges = Inr sd" unfolding sd_def using ne lst by (rule pack_ok)
  have seg: "MPI_Alltoallv (sd # sends) q = outEdges ! q @ MPI_Alltoallv sends q"
    if "q < P" for q and sends :: "(GraphElemTuple list \<times> nat list \<times> nat list) list"
    using that len by (simp add: MPI_Alltoallv_def sd_def segment_of_concat)
  from Cons obtain sent sends where
    s: "all_ok (map (\<lambda>(edgeList, numVertices). distribute V P edgeList) locals) = Inr sent"
    and p: "all_ok (map (\<lambda>(edgeCount, outEdges). pack outEdges) sent) = Inr sends"
    and m: "\<forall>q<P. MPI_Alltoallv sends q = concat (map (\<lambda>l. sent_to ?ps q (fst l)) locals)"
    and t: "int (\<Sum>q<P. length (MPI_Alltoallv sends q)) = reduce_numEdges locals"
    by auto
  let ?sent = "(edgeCount, outEdges) # sent"
  let ?sends = "sd # sends"
  have a: "all_ok (map (\<lambda>(edgeList, numVertices). distribute V P edgeList) (l # locals)) = Inr ?sent"
    by (simp add: l d s)
  have b: "all_ok (map (\<lambda>(edgeCount, outEdges). pack outEdges) ?sent) = Inr ?sends"
    by (simp add: pk p)
  have r: "\<forall>q<P. MPI_Alltoallv ?sends q = concat (map (\<lambda>l. sent_to ?ps q (fst l)) (l # locals))"
    using m c by (simp add: seg l)
  have "(\<Sum>q<P. length (MPI_Alltoallv ?sends q))
        = (\<Sum>q<P. length (outEdges ! q) + length (MPI_Alltoallv sends q))"
    by (intro sum.cong) (simp_all add: seg)
  also have "\<dots> = (\<Sum>q<P. length (outEdges ! q)) + (\<Sum>q<P. length (MPI_Alltoallv sends q))"
    by (rule sum.distrib)
  finally have "int (\<Sum>q<P. length (MPI_Alltoallv ?sends q))
        = int (length edgeList) * 2 + reduce_numEdges locals"
    using n t by simp
  then have e: "int (\<Sum>q<P. length (MPI_Alltoallv ?sends q)) = reduce_numEdges (l # locals)"
    by (simp add: reduce_numEdges_def MPI_SUM_def l)
  show ?case by (intro exI[of _ ?sent] exI[of _ ?sends] conjI a b r e)
qed
section \<open>Properties of the local sort\<close>

lemma ecmp_less: "ecmp e0 e1 \<longleftrightarrow> (ei e0, ej e0) < (ei e1, ej e1)"
  by (auto simp: ecmp_def less_prod_def)

lemma is_sorted_ecmp: "is_sorted ecmp xs \<longleftrightarrow> sorted (map (\<lambda>e. (ei e, ej e)) xs)"
proof (induction xs rule: induct_list012)
  case (3 x y ys)
  have "(\<forall>k\<in>set (y # ys). (ei x, ej x) \<le> (ei k, ej k)) \<longleftrightarrow> (ei x, ej x) \<le> (ei y, ej y)"
    if "sorted (map (\<lambda>e. (ei e, ej e)) (y # ys))"
    using that by (auto simp: order_trans[of "(ei x, ej x)" "(ei y, ej y)"])
  with 3 show ?case by (auto simp: ecmp_less not_less)
qed simp_all

lemma mset_insert_by: "mset (insert_by lt x ys) = add_mset x (mset ys)"
  by (induction ys) auto

lemma set_insert_by: "set (insert_by lt x ys) = insert x (set ys)"
  by (induction ys) auto

lemma sorted_insert_by:
  "sorted (map (\<lambda>e. (ei e, ej e)) ys) \<Longrightarrow> sorted (map (\<lambda>e. (ei e, ej e)) (insert_by ecmp x ys))"
  by (induction ys) (auto simp: set_insert_by ecmp_less not_less less_imp_le)

lemma mset_std_sort: "mset (std_sort xs) = mset xs"
  by (induction xs) (simp_all add: std_sort_def mset_insert_by)

lemma is_sorted_std_sort: "is_sorted ecmp (std_sort xs)"
  unfolding is_sorted_ecmp
  by (induction xs) (simp_all add: std_sort_def sorted_insert_by)

text \<open>
  Claim C9, as amended. For every sort algorithm that meets the contract of \<open>std::sort\<close>
  and every two sequences \<open>xs\<close>, \<open>ys\<close> of the same edges in any order, the result of
  \<open>LocalSorter\<close> on \<open>xs\<close> is a permutation of \<open>xs\<close> that passes the \<open>is_sorted\<close> check, on
  either path, and the results on \<open>xs\<close> and on \<open>ys\<close> have the same sequence of
  (source, destination) pairs. Nothing is said about the order of edges with the same
  source and destination.
\<close>

theorem C9_sorted_by_ends_only:
  assumes perm: "\<And>zs. mset (sort_impl zs) = mset zs"
    and ordered: "\<And>zs. is_sorted ecmp (sort_impl zs)"
    and same: "mset xs = mset ys"
  shows "mset (LocalSorter sort_impl xs) = mset xs
       \<and> is_sorted ecmp (LocalSorter sort_impl xs)
       \<and> map (\<lambda>e. (ei e, ej e)) (LocalSorter sort_impl xs)
         = map (\<lambda>e. (ei e, ej e)) (LocalSorter sort_impl ys)"
proof -
  let ?key = "\<lambda>e. (ei e, ej e)"
  have m: "mset (LocalSorter sort_impl zs) = mset zs" for zs
    by (simp add: LocalSorter_def perm)
  have s: "is_sorted ecmp (LocalSorter sort_impl zs)" for zs
    by (simp add: LocalSorter_def ordered)
  have "mset (map ?key (LocalSorter sort_impl xs)) = mset (map ?key (LocalSorter sort_impl ys))"
    using m[of xs] m[of ys] same by simp
  moreover have "sorted (map ?key (LocalSorter sort_impl xs))"
    and "sorted (map ?key (LocalSorter sort_impl ys))"
    using s by (simp_all add: is_sorted_ecmp)
  ultimately have "map ?key (LocalSorter sort_impl xs) = map ?key (LocalSorter sort_impl ys)"
    by (metis properties_for_sort)
  with m s show ?thesis by simp
qed

text \<open>
  Claim C9 as stated fails. Two edges with the same source and destination and
  different weights are in order either way round, so \<open>LocalSorter\<close> keeps both
  arrangements as they are: the same edges, given in two orders, end as two different
  sequences.
\<close>

theorem C9_counterexample:
  "mset [\<lparr>ei = 0, ej = 1, ew = 1\<rparr>, \<lparr>ei = 0, ej = 1, ew = 2\<rparr>]
     = mset [\<lparr>ei = 0, ej = 1, ew = 2\<rparr>, \<lparr>ei = 0, ej = 1, ew = 1\<rparr>]
   \<and> LocalSorter std_sort [\<lparr>ei = 0, ej = 1, ew = 1\<rparr>, \<lparr>ei = 0, ej = 1, ew = 2\<rparr>]
     = [\<lparr>ei = 0, ej = 1, ew = 1\<rparr>, \<lparr>ei = 0, ej = 1, ew = 2\<rparr>]
   \<and> LocalSorter std_sort [\<lparr>ei = 0, ej = 1, ew = 2\<rparr>, \<lparr>ei = 0, ej = 1, ew = 1\<rparr>]
     = [\<lparr>ei = 0, ej = 1, ew = 2\<rparr>, \<lparr>ei = 0, ej = 1, ew = 1\<rparr>]
   \<and> LocalSorter std_sort [\<lparr>ei = 0, ej = 1, ew = 1\<rparr>, \<lparr>ei = 0, ej = 1, ew = 2\<rparr>]
     \<noteq> LocalSorter std_sort [\<lparr>ei = 0, ej = 1, ew = 2\<rparr>, \<lparr>ei = 0, ej = 1, ew = 1\<rparr>]"
  by (simp add: LocalSorter_def ecmp_def)

theorem C9_sorted_by_ends_only_witness:
  "mset [\<lparr>ei = 2, ej = 0, ew = 5\<rparr>, \<lparr>ei = 0, ej = 1, ew = 1\<rparr>, \<lparr>ei = 0, ej = 1, ew = 2\<rparr>]
     = mset [\<lparr>ei = 0, ej = 1, ew = 2\<rparr>, \<lparr>ei = 0, ej = 1, ew = 1\<rparr>, \<lparr>ei = 2, ej = 0, ew = 5\<rparr>]
   \<and> LocalSorter std_sort [\<lparr>ei = 2, ej = 0, ew = 5\<rparr>, \<lparr>ei = 0, ej = 1, ew = 1\<rparr>, \<lparr>ei = 0, ej = 1, ew = 2\<rparr>]
     = [\<lparr>ei = 0, ej = 1, ew = 1\<rparr>, \<lparr>ei = 0, ej = 1, ew = 2\<rparr>, \<lparr>ei = 2, ej = 0, ew = 5\<rparr>]
   \<and> LocalSorter std_sort [\<lparr>ei = 0, ej = 1, ew = 2\<rparr>, \<lparr>ei = 0, ej = 1, ew = 1\<rparr>, \<lparr>ei = 2, ej = 0, ew = 5\<rparr>]
     = [\<lparr>ei = 0, ej = 1, ew = 2\<rparr>, \<lparr>ei = 0, ej = 1, ew = 1\<rparr>, \<lparr>ei = 2, ej = 0, ew = 5\<rparr>]
   \<and> map (\<lambda>e. (ei e, ej e))
         (LocalSorter std_sort [\<lparr>ei = 2, ej = 0, ew = 5\<rparr>, \<lparr>ei = 0, ej = 1, ew = 1\<rparr>, \<lparr>ei = 0, ej = 1, ew = 2\<rparr>])
     = map (\<lambda>e. (ei e, ej e))
         (LocalSorter std_sort [\<lparr>ei = 0, ej = 1, ew = 2\<rparr>, \<lparr>ei = 0, ej = 1, ew = 1\<rparr>, \<lparr>ei = 2, ej = 0, ew = 5\<rparr>])"
proof -
  let ?xs = "[\<lparr>ei = 2, ej = 0, ew = 5\<rparr>, \<lparr>ei = 0, ej = 1, ew = 1\<rparr>, \<lparr>ei = 0, ej = 1, ew = 2\<rparr>]"
  let ?ys = "[\<lparr>ei = 0, ej = 1, ew = 2\<rparr>, \<lparr>ei = 0, ej = 1, ew = 1\<rparr>, \<lparr>ei = 2, ej = 0, ew = 5\<rparr>]"
  have same: "mset ?xs = mset ?ys" by simp
  note c9 = C9_sorted_by_ends_only[of std_sort ?xs ?ys, OF mset_std_sort is_sorted_std_sort same]
  have x: "LocalSorter std_sort ?xs
           = [\<lparr>ei = 0, ej = 1, ew = 1\<rparr>, \<lparr>ei = 0, ej = 1, ew = 2\<rparr>, \<lparr>ei = 2, ej = 0, ew = 5\<rparr>]"
    by (simp add: LocalSorter_def std_sort_def ecmp_def)
  have y: "LocalSorter std_sort ?ys = ?ys"
    by (simp add: LocalSorter_def ecmp_def)
  from c9 have k: "map (\<lambda>e. (ei e, ej e)) (LocalSorter std_sort ?xs)
                   = map (\<lambda>e. (ei e, ej e)) (LocalSorter std_sort ?ys)" by blast
  show ?thesis by (intro conjI same x y k)
qed

section \<open>Properties of the writes\<close>

lemma length_bytes_of_GraphElem: "length (bytes_of_GraphElem x) = 8"
  by (simp add: bytes_of_GraphElem_def)

lemma length_bytes_of_Edge: "length (bytes_of_Edge e) = 16"
  by (simp add: bytes_of_Edge_def bytes_of_GraphElem_def bytes_of_GraphWeight_def)

lemma length_concat_bytes_of_Edge: "length (concat (map bytes_of_Edge es)) = 16 * length es"
  by (induction es) (simp_all add: length_bytes_of_Edge)

lemma u64_sub_le:
  assumes "b \<le> a" and "a < 2 ^ 64"
  shows "u64_sub a b = a - b"
proof -
  have b: "b mod 2 ^ 64 = b" using assms by simp
  have e: "a + 2 ^ 64 - b = (a - b) + 2 ^ 64" using assms(1) by simp
  have lt: "a - b < 2 ^ 64" using assms(2) by simp
  have "u64_sub a b = ((a - b) + 2 ^ 64) mod 2 ^ 64"
    by (simp only: u64_sub_def b e)
  also have "\<dots> = (a - b) mod 2 ^ 64" by (rule mod_add_self2)
  also have "\<dots> = a - b" using lt by (rule mod_less)
  finally show ?thesis .
qed

lemma write_at_write_at:
  "MPI_File_write_at (MPI_File_write_at fh off as) (off + length as) bs
   = (MPI_File_write_at fh off (as @ bs))\<lparr>calls := calls fh @ [(off, length as), (off + length as, length bs)]\<rparr>"
  by (auto simp: MPI_File_write_at_def fun_eq_iff nth_append)

lemma chunk_calls_step:
  assumes "0 < cap" "cap \<le> n"
  shows "chunk_calls cap off n = (off, cap) # chunk_calls cap (off + cap) (n - cap)"
proof -
  define m where "m = (n - cap) div cap"
  have m: "n div cap = Suc m" using assms by (simp add: m_def le_div_geq)
  have d: "(n - cap) div cap = m" by (simp add: m_def)
  have md: "(n - cap) mod cap = n mod cap" using assms by (simp add: le_mod_geq)
  have "map (\<lambda>k. (off + k * cap, cap)) [0..<Suc m]
        = (off, cap) # map (\<lambda>k. (off + cap + k * cap, cap)) [0..<m]"
    by (simp only: upt_conv_Cons[of 0 "Suc m"] map_Suc_upt[symmetric]) (simp add: add.assoc)
  then show ?thesis unfolding chunk_calls_def m d md by (simp add: add.assoc)
qed

lemma write_chunks_inv:
  assumes cap: "0 < cap"
    and len: "tot \<le> length buf" and rng: "tot < 2 ^ 64"
  shows "transf \<le> tot \<Longrightarrow> n = tot - transf \<Longrightarrow> chunk = min cap (tot - transf) \<Longrightarrow>
    write_chunks cap tot buf fh off transf transf chunk
    = Some ((MPI_File_write_at fh off (take n (drop transf buf)))
              \<lparr>calls := calls fh @ chunk_calls cap off n\<rparr>)"
proof (induction n arbitrary: fh off transf chunk rule: less_induct)
  case (less n)
  show ?case
  proof (cases "transf < tot")
    case False
    with less.prems have n0: "n = 0" by simp
    have "(MPI_File_write_at fh off [])\<lparr>calls := calls fh\<rparr> = fh"
      by (cases fh) (auto simp: MPI_File_write_at_def fun_eq_iff)
    then show ?thesis using False n0
      by (subst write_chunks.simps) (simp add: chunk_calls_def)
  next
    case True
    then have npos: "0 < n" using less.prems by simp
    have cpos: "0 < chunk" "chunk \<le> n" using less.prems npos cap by simp_all
    define transf' where "transf' = transf + chunk"
    have t'le: "transf' \<le> tot"
      using cpos(2) less.prems(1,2) unfolding transf'_def by arith
    have t': "u64_add transf chunk = transf'" "transf' \<le> tot"
      using t'le rng by (simp_all add: u64_add_def transf'_def)
    have sub: "u64_sub tot transf' = tot - transf'"
      using t'le rng by (rule u64_sub_le)
    have n'1: "n - chunk = tot - transf'"
      using less.prems(2) by (simp add: transf'_def)
    have n'2: "n - chunk < n" using cpos(1) npos by arith
    note n' = n'1 n'2
    define chunk' where "chunk' = (if tot - transf' < cap then tot - transf' else chunk)"
    have c': "chunk' = min cap (tot - transf')"
    proof (cases "tot - transf' < cap")
      case True
      then show ?thesis by (simp add: chunk'_def)
    next
      case False
      then have "cap \<le> n" using n'1 by arith
      then have "chunk = cap" using less.prems(2,3) by simp
      with False show ?thesis by (simp add: chunk'_def)
    qed
    define bs where "bs = take chunk (drop transf buf)"
    have lbs: "length bs = chunk" using cpos less.prems len by (simp add: bs_def)
    have step: "write_chunks cap tot buf fh off transf transf chunk
      = write_chunks cap tot buf (MPI_File_write_at fh off bs) (off + chunk) transf' transf' chunk'"
      using True by (subst write_chunks.simps) (simp add: Let_def t'(1) sub chunk'_def bs_def transf'_def[symmetric])
    note ih = less.IH[OF n'(2) t'(2) n'(1) c', of "MPI_File_write_at fh off bs" "off + chunk"]
    have bytes: "bs @ take (n - chunk) (drop transf' buf) = take n (drop transf buf)"
    proof -
      have "take n (drop transf buf) = take (chunk + (n - chunk)) (drop transf buf)"
        using cpos by simp
      also have "\<dots> = take chunk (drop transf buf) @ take (n - chunk) (drop chunk (drop transf buf))"
        by (rule take_add)
      also have "drop chunk (drop transf buf) = drop transf' buf"
        by (simp add: transf'_def add.commute)
      finally show ?thesis by (simp add: bs_def)
    qed
    have cc: "chunk_calls cap off n = (off, chunk) # chunk_calls cap (off + chunk) (n - chunk)"
    proof (cases "cap \<le> n")
      case True
      then have "chunk = cap" using less.prems by simp
      then show ?thesis using chunk_calls_step[OF cap True] by simp
    next
      case False
      then have "chunk = n" using less.prems by simp
      then show ?thesis using False npos by (simp add: chunk_calls_def)
    qed
    have cl: "calls (MPI_File_write_at fh off bs) = calls fh @ [(off, chunk)]"
      by (simp add: MPI_File_write_at_def lbs)
    have w2: "MPI_File_write_at (MPI_File_write_at fh off bs) (off + chunk)
                (take (n - chunk) (drop transf' buf))
              = (MPI_File_write_at fh off (take n (drop transf buf)))
                  \<lparr>calls := calls fh @ [(off, chunk), (off + chunk, n - chunk)]\<rparr>"
    proof -
      have l2: "length (take (n - chunk) (drop transf' buf)) = n - chunk"
        using len n'1 by simp
      show ?thesis
        using write_at_write_at[of fh off bs "take (n - chunk) (drop transf' buf)"]
        unfolding lbs l2 bytes .
    qed
    show ?thesis
      unfolding step ih cl w2 cc by simp
  qed
qed

lemma chunk_calls_offsets:
  assumes "0 < cap"
  shows "sorted_wrt (<) (map fst (chunk_calls cap off n))"
proof -
  have mono: "sorted_wrt (<) (map (\<lambda>k. off + k * cap) [0..<m])" for m
    using assms by (simp add: sorted_wrt_map sorted_wrt_iff_nth_less)
  have "sorted_wrt (<) (map (\<lambda>k. off + k * cap) [0..<Suc (n div cap)])" by (rule mono)
  then have full: "sorted_wrt (<) (map (\<lambda>k. off + k * cap) [0..<n div cap] @ [off + (n div cap) * cap])"
    by simp
  have fst: "map fst (chunk_calls cap off n)
     = map (\<lambda>k. off + k * cap) [0..<n div cap]
       @ (if n mod cap = 0 then [] else [off + (n div cap) * cap])"
    by (simp add: chunk_calls_def comp_def)
  show ?thesis
  proof (cases "n mod cap = 0")
    case True
    then show ?thesis unfolding fst using mono[of "n div cap"] by simp
  next
    case False
    then show ?thesis unfolding fst using full by simp
  qed
qed

lemma chunk_calls_total: "sum_list (map snd (chunk_calls cap off n)) = n"
proof -
  have full: "sum_list (map snd (map (\<lambda>k. (off + k * cap, cap)) [0..<n div cap])) = (n div cap) * cap"
    by (simp add: comp_def sum_list_triv)
  have dm: "(n div cap) * cap + n mod cap = n" by simp
  show ?thesis
  proof (cases "n mod cap = 0")
    case True
    with dm have "(n div cap) * cap = n" by simp
    with True full show ?thesis unfolding chunk_calls_def by simp
  next
    case False
    with dm full show ?thesis unfolding chunk_calls_def by simp
  qed
qed

lemma write_payload_chunked:
  assumes "0 < cap" and "cap \<le> tot_bytes" and "tot_bytes \<le> length buf" and "tot_bytes < 2 ^ 64"
  shows "write_payload cap fh offset buf tot_bytes
         = Some ((MPI_File_write_at fh offset (take tot_bytes buf))
                   \<lparr>calls := calls fh @ chunk_calls cap offset tot_bytes\<rparr>)"
proof -
  have "write_chunks cap tot_bytes buf fh offset 0 0 cap
        = Some ((MPI_File_write_at fh offset (take tot_bytes (drop 0 buf)))
                  \<lparr>calls := calls fh @ chunk_calls cap offset tot_bytes\<rparr>)"
    using assms(2) by (intro write_chunks_inv[OF assms(1,3,4)]) simp_all
  then show ?thesis using assms(2) by (simp add: write_payload_def)
qed

text \<open>
  Claim C8. For a payload of \<open>tot_bytes\<close> bytes at the start of a buffer and a starting
  offset, when \<open>tot_bytes\<close> is at least the limit of one call, the chunked write ends,
  and the file then holds byte for byte what one write of the whole payload at that
  offset leaves. Its calls are the full chunks at \<open>offset\<close>, \<open>offset + cap\<close>, ... and
  then, if \<open>tot_bytes\<close> is not a multiple of the limit, one call for the remainder;
  the offsets increase strictly and the byte counts add up to \<open>tot_bytes\<close>.
\<close>

theorem C8_chunked_write_equals_single_write:
  assumes "0 < cap" and "cap \<le> tot_bytes" and "tot_bytes \<le> length buf" and "tot_bytes < 2 ^ 64"
  shows "\<exists>fh' new. write_payload cap fh offset buf tot_bytes = Some fh'
       \<and> contents fh' = contents (MPI_File_write_at fh offset (take tot_bytes buf))
       \<and> calls fh' = calls fh @ new
       \<and> new = map (\<lambda>k. (offset + k * cap, cap)) [0..<tot_bytes div cap]
               @ (if tot_bytes mod cap = 0 then []
                  else [(offset + (tot_bytes div cap) * cap, tot_bytes mod cap)])
       \<and> sorted_wrt (<) (map fst new)
       \<and> sum_list (map snd new) = tot_bytes"
proof -
  let ?new = "chunk_calls cap offset tot_bytes"
  let ?fh' = "(MPI_File_write_at fh offset (take tot_bytes buf))\<lparr>calls := calls fh @ ?new\<rparr>"
  have "write_payload cap fh offset buf tot_bytes = Some ?fh'"
    using assms by (rule write_payload_chunked)
  moreover have "contents ?fh' = contents (MPI_File_write_at fh offset (take tot_bytes buf))"
    by simp
  moreover have "calls ?fh' = calls fh @ ?new" by simp
  moreover have "?new = map (\<lambda>k. (offset + k * cap, cap)) [0..<tot_bytes div cap]
               @ (if tot_bytes mod cap = 0 then []
                  else [(offset + (tot_bytes div cap) * cap, tot_bytes mod cap)])"
    by (simp add: chunk_calls_def)
  moreover have "sorted_wrt (<) (map fst ?new)" using assms(1) by (rule chunk_calls_offsets)
  moreover have "sum_list (map snd ?new) = tot_bytes" by (rule chunk_calls_total)
  ultimately show ?thesis by blast
qed

theorem C8_chunked_write_equals_single_write_witness:
  "(0::nat) < 4 \<and> (4::nat) \<le> 10 \<and> 10 \<le> length [1, 2, 3, 4, 5, 6, 7, 8, 9, 10 :: nat]
   \<and> (10::nat) < 2 ^ 64
   \<and> (\<exists>fh'. write_payload 4 \<lparr>contents = (\<lambda>pos. None), calls = []\<rparr> 100
                 [1, 2, 3, 4, 5, 6, 7, 8, 9, 10 :: nat] 10 = Some fh'
          \<and> calls fh' = [(100, 4), (104, 4), (108, 2)]
          \<and> map (contents fh') [99, 100, 103, 104, 108, 109, 110]
              = [None, Some 1, Some 4, Some 5, Some 9, Some 10, None])"
proof -
  let ?buf = "[1, 2, 3, 4, 5, 6, 7, 8, 9, 10 :: nat]"
  let ?fh = "\<lparr>contents = (\<lambda>pos. None :: nat option), calls = []\<rparr>"
  have pre: "(0::nat) < 4" "(4::nat) \<le> 10" "10 \<le> length ?buf" "(10::nat) < 2 ^ 64"
    by simp_all
  from C8_chunked_write_equals_single_write[OF pre, of ?fh 100]
  obtain fh' new where r: "write_payload 4 ?fh 100 ?buf 10 = Some fh'"
    and c: "contents fh' = contents (MPI_File_write_at ?fh 100 (take 10 ?buf))"
    and k: "calls fh' = calls ?fh @ new"
    and n: "new = map (\<lambda>k. (100 + k * 4, 4)) [0..<10 div 4]
               @ (if (10::nat) mod 4 = 0 then [] else [(100 + (10 div 4) * 4, 10 mod 4)])"
    by blast
  have "[0..<10 div 4] = [0, 1 :: nat]" by (simp add: numeral_2_eq_2)
  then have "new = [(100, 4), (104, 4), (108, 2)]" unfolding n by simp
  then have k': "calls fh' = [(100, 4), (104, 4), (108, 2)]" using k by simp
  have c': "map (contents fh') [99, 100, 103, 104, 108, 109, 110]
              = [None, Some 1, Some 4, Some 5, Some 9, Some 10, None]"
    unfolding c by (simp add: MPI_File_write_at_def)
  have ex: "\<exists>fh'. write_payload 4 ?fh 100 ?buf 10 = Some fh'
          \<and> calls fh' = [(100, 4), (104, 4), (108, 2)]
          \<and> map (contents fh') [99, 100, 103, 104, 108, 109, 110]
              = [None, Some 1, Some 4, Some 5, Some 9, Some 10, None]"
    by (intro exI[of _ fh'] conjI r k' c')
  show ?thesis by (intro conjI pre ex)
qed

lemma write_payload_contents:
  assumes "0 < cap" and "tot_bytes \<le> length buf" and "tot_bytes < 2 ^ 64"
  shows "\<exists>fh'. write_payload cap fh offset buf tot_bytes = Some fh'
           \<and> contents fh' = contents (MPI_File_write_at fh offset (take tot_bytes buf))"
proof (cases "tot_bytes < cap")
  case True
  then show ?thesis by (simp add: write_payload_def)
next
  case False
  then have "cap \<le> tot_bytes" by simp
  from write_payload_chunked[OF assms(1) this assms(2,3), of fh offset]
  show ?thesis by simp
qed

lemma take_concat_blocks:
  assumes "\<And>x. length (f x) = k"
  shows "take (k * n) (concat (map f xs)) = concat (map f (take n xs))"
proof (induction xs arbitrary: n)
  case Nil
  then show ?case by simp
next
  case (Cons x xs)
  show ?case
  proof (cases n)
    case 0
    then show ?thesis by simp
  next
    case (Suc m)
    have "take (k * Suc m) (f x @ concat (map f xs)) = f x @ take (k * m) (concat (map f xs))"
      by (simp add: assms)
    then show ?thesis using Cons[of m] Suc by simp
  qed
qed

text \<open>
  The payload of the edge counts is the first \<open>globalNumVertices\<close> entries of
  \<open>edgeCount\<close>, which has one entry more.
\<close>

lemma write_counts_table:
  assumes fit: "8 * nat V < 2 ^ 64" and len: "nat V \<le> length edgeCount"
  shows "\<exists>fh'. write_counts fh V E edgeCount = Some fh'
     \<and> contents fh'
       = contents (MPI_File_write_at
                    (MPI_File_write_at (MPI_File_write_at fh 0 (bytes_of_GraphElem V))
                       8 (bytes_of_GraphElem E))
                    16 (concat (map bytes_of_GraphElem (take (nat V) edgeCount))))"
proof -
  define buf where "buf = concat (map bytes_of_GraphElem edgeCount)"
  define tot where "tot = 8 * nat V"
  define fh2 where "fh2 = MPI_File_write_at (MPI_File_write_at fh 0 (bytes_of_GraphElem V))
                       8 (bytes_of_GraphElem E)"
  have wc: "write_counts fh V E edgeCount = write_payload INT_MAX fh2 16 buf tot"
    by (simp add: write_counts_def sizeof_GraphElem_def Let_def buf_def tot_def fh2_def mult.commute)
  have tk: "take tot buf = concat (map bytes_of_GraphElem (take (nat V) edgeCount))"
    unfolding tot_def buf_def by (rule take_concat_blocks) (rule length_bytes_of_GraphElem)
  have "length buf = 8 * length edgeCount"
    unfolding buf_def by (induction edgeCount) (simp_all add: length_bytes_of_GraphElem)
  then have le: "tot \<le> length buf" using len by (simp add: tot_def)
  have lt: "tot < 2 ^ 64" unfolding tot_def by (rule fit)
  have cap: "0 < INT_MAX" by (simp add: INT_MAX_def)
  from write_payload_contents[OF cap le lt, of fh2 16]
  show ?thesis unfolding wc tk fh2_def .
qed

text \<open>
  The payload of the edges is the first \<open>numEdges\<close> elements of \<open>csrCols\<close>: the
  default edges that the vector was built with, not the edges appended to it.
\<close>

lemma write_edges_default_edges:
  assumes fit: "16 * length rredata < 2 ^ 64"
  shows "\<exists>fh'. write_edges fh V e_offset dflt rredata = Some fh'
     \<and> contents fh'
       = contents (MPI_File_write_at fh (edges_offset V e_offset)
                    (concat (map bytes_of_Edge (replicate (length rredata) dflt))))"
proof -
  define buf where "buf = concat (map bytes_of_Edge (csrCols dflt rredata))"
  define tot where "tot = 16 * length rredata"
  have we: "write_edges fh V e_offset dflt rredata
            = write_payload INT_MAX fh (edges_offset V e_offset) buf tot"
    by (simp add: write_edges_def sizeof_Edge_def Let_def buf_def tot_def mult.commute)
  have "take tot buf = concat (map bytes_of_Edge (take (length rredata) (csrCols dflt rredata)))"
    unfolding tot_def buf_def by (rule take_concat_blocks) (rule length_bytes_of_Edge)
  then have tk: "take tot buf = concat (map bytes_of_Edge (replicate (length rredata) dflt))"
    by (simp add: csrCols_def)
  have "length (csrCols dflt rredata) = 2 * length rredata" by (simp add: csrCols_def)
  then have "length buf = 16 * (2 * length rredata)"
    unfolding buf_def by (simp only: length_concat_bytes_of_Edge)
  then have le: "tot \<le> length buf" by (simp add: tot_def)
  have lt: "tot < 2 ^ 64" unfolding tot_def by (rule fit)
  have cap: "0 < INT_MAX" by (simp add: INT_MAX_def)
  from write_payload_contents[OF cap le lt, of fh "edges_offset V e_offset"]
  show ?thesis unfolding we tk .
qed

text \<open>
  Where the edges of a process start: after the two counts and \<open>globalNumVertices + 1\<close>
  entries of 8 bytes, and after 16 bytes for every edge of the lower ranks.
\<close>

lemma edges_offset_eq:
  "edges_offset V e_offset = 16 + 8 * nat (V + 1) + 16 * e_offset"
  by (simp add: edges_offset_def sizeof_GraphElem_def sizeof_Edge_def)

section \<open>Runs of the whole function\<close>

subsection \<open>No shard at all\<close>

lemma all_ok_replicate: "all_ok (replicate n (Inr c)) = Inr (replicate n c)"
  by (induction n) simp_all

lemma MPI_MAX_replicate: "0 < n \<Longrightarrow> MPI_MAX (replicate n x) = x"
proof -
  have "fold max (replicate m x) x = x" for m by (induction m) simp_all
  then show "0 < n \<Longrightarrow> MPI_MAX (replicate n x) = x"
    by (cases n) (simp_all add: MPI_MAX_def)
qed

lemma all_ok_length: "all_ok rs = Inr xs \<Longrightarrow> length xs = length rs"
proof (induction rs arbitrary: xs)
  case Nil
  then show ?case by simp
next
  case (Cons r rs)
  then show ?case by (auto split: sum.splits)
qed

lemma all_ok_replicate_Inl: "0 < n \<Longrightarrow> all_ok (replicate n (Inl e)) = Inl e"
  by (cases n) simp_all

lemma pack_nothing: "0 < nprocs \<Longrightarrow> pack (replicate nprocs ([] :: 'a list)) = Inl OutOfBounds"
  by (rule pack_stops) simp_all

text \<open>
  Claim C10 fails on the code. When no process has a shard to read (\<open>fileProc\<close> is
  empty, as when no file of the directory matches the tile range), the counts come out
  as the claim says with zero-based indexing: every \<open>numVertices\<close> is 0, the maximum is 0
  and one is added, so \<open>globalNumVertices = 1\<close> and \<open>globalNumEdges = 0\<close>. But the function
  does not run to its end. Every process has nothing to send, its send buffer has no
  element, and the first iteration of the copy loop evaluates \<open>sredata[0]\<close>, an index
  outside the vector: the run stops there, before the output file is opened, and no
  header is written. This holds for every number of processes.
\<close>

theorem C10_no_records_run_stops:
  assumes procs: "1 \<le> nprocs"
    and range: "0 \<le> fileStartIndex" "fileStartIndex \<le> fileEndIndex"
    and none: "fileProc fs fileInShardsPath fileStartIndex fileEndIndex = []"
  shows "loadParallelFileShards nprocs fileInShardsPath fileStartIndex fileEndIndex False
           wtype shardCount fs junk dflt sort_impl can_open = Some (Inl OutOfBounds)
       \<and> all_ok (map (\<lambda>rank. read_shard fs [] rank False wtype shardCount (junk rank)) [0..<nprocs])
         = Inr (replicate nprocs ([], 0))
       \<and> reduce_numVertices False (replicate nprocs ([], 0)) = 1
       \<and> reduce_numEdges (replicate nprocs ([], 0)) = 0
       \<and> distribute 1 nprocs [] = Inr ([0, 0], replicate nprocs [])
       \<and> pack (replicate nprocs ([] :: GraphElemTuple list)) = Inl OutOfBounds"
proof -
  let ?locals = "replicate nprocs ([] :: GraphElemTuple list, 0 :: GraphElem)"
  have ne: "0 < nprocs" using procs by simp
  have rd: "all_ok (map (\<lambda>rank. read_shard fs [] rank False wtype shardCount (junk rank)) [0..<nprocs])
            = Inr ?locals"
    by (simp add: read_shard_def map_replicate_const all_ok_replicate)
  have E: "reduce_numEdges ?locals = 0"
    by (simp add: reduce_numEdges_def MPI_SUM_def sum_list_replicate)
  have V: "reduce_numVertices False ?locals = 1"
    using procs by (simp add: reduce_numVertices_def MPI_MAX_replicate)
  let ?d = "([0, 0] :: GraphElem list, replicate nprocs ([] :: GraphElemTuple list))"
  have d1: "distribute 1 nprocs [] = Inr ?d"
    by (simp add: distribute_def numeral_2_eq_2)
  have ds: "all_ok (map (\<lambda>(edgeList, numVertices). distribute 1 nprocs edgeList) ?locals)
            = Inr (replicate nprocs ?d)"
    by (simp add: d1 all_ok_replicate)
  have pk: "pack (replicate nprocs ([] :: GraphElemTuple list)) = Inl OutOfBounds"
    using ne by (rule pack_nothing)
  have ps: "all_ok (map (\<lambda>(edgeCount, outEdges). pack outEdges) (replicate nprocs ?d))
            = Inl OutOfBounds"
    using ne by (simp add: pk all_ok_replicate_Inl)
  have run: "loadParallelFileShards nprocs fileInShardsPath fileStartIndex fileEndIndex False
                 wtype shardCount fs junk dflt sort_impl can_open = Some (Inl OutOfBounds)"
  proof -
    have r3: "0 \<le> fileEndIndex" using range by simp
    show ?thesis
      unfolding loadParallelFileShards_def Let_def none rd
      by (simp only: range r3 simp_thms if_False if_True sum.case E V ds ps)
  qed
  show ?thesis by (intro conjI run rd V E d1 pk)
qed

theorem C10_no_records_run_stops_witness:
  "(1::nat) \<le> 1 \<and> (0::int) \<le> 1 \<and> (1::int) \<le> 2 \<and> fileProc (\<lambda>fileName. None) ''d'' 1 2 = []
   \<and> loadParallelFileShards 1 ''d'' 1 2 False ORG_WEIGHT 4 (\<lambda>fileName. None) junk_7 edge_0
        std_sort True = Some (Inl OutOfBounds)
   \<and> reduce_numVertices False [([], 0)] = 1
   \<and> reduce_numEdges [([], 0)] = 0
   \<and> distribute 1 1 [] = Inr ([0, 0], [[]])
   \<and> pack [[] :: GraphElemTuple list] = Inl OutOfBounds"
proof -
  have pre: "(1::nat) \<le> 1" "(0::int) \<le> 1" "(1::int) \<le> 2"
    "fileProc (\<lambda>fileName. None) ''d'' 1 2 = []"
    by (simp_all add: fileProc_def)
  note c10 = C10_no_records_run_stops[OF pre, of ORG_WEIGHT 4 junk_7 edge_0 std_sort True]
  from c10 show ?thesis using pre by simp
qed

subsection \<open>More than one process\<close>

text \<open>
  With more than one process no run gets to the output file: a run that passes the
  exchange stops in the reduction of the edge counts, where the processes other than
  the root name \<open>MPI_IN_PLACE\<close> as their send buffer.
\<close>

lemma more_than_one_process_stops:
  assumes "2 \<le> nprocs"
  shows "\<exists>e. loadParallelFileShards nprocs fileInShardsPath fileStartIndex fileEndIndex
                indexOneBased wtype shardCount fs junk dflt sort_impl can_open = Some (Inl e)"
proof -
  have red: "MPI_Reduce_SUM (map fst sent) cnt = Inl ErroneousCall" if "length sent = nprocs"
    for sent :: "(GraphElem list \<times> GraphElemTuple list list) list" and cnt
    using that assms by (simp add: MPI_Reduce_SUM_def)
  show ?thesis
    unfolding loadParallelFileShards_def Let_def
    by (auto split: sum.splits dest!: all_ok_length simp: red)
qed

subsection \<open>Runs on a directory with one shard\<close>

lemma to_string_1: "to_string 1 = ''1''"
  by code_simp

lemma names_one_shard: "fileProc (one_shard text) ''d'' 1 1 = [''d/1__1.csv'']"
  by (simp add: fileProc_def shard_file_name_def to_string_1 one_shard_def)

lemma offsets_1_1: "shard_offsets ''d/1__1.csv'' 4 = Inr (0, 0)"
  by (simp add: shard_offsets_def find_last_of_def substr_def npos_def find_str_def
      stoi_def get_sign_def isspace_def isdigit_def dec_def)

lemma read_shard_one:
  "read_shard (one_shard text) [''d/1__1.csv''] 0 indexOneBased wtype 4 junk
   = Inr (read_loop wtype indexOneBased 0 0 junk text 0 ([], 0))"
  by (simp add: read_shard_def offsets_1_1 one_shard_def)

lemma read_A: "read_loop ORG_WEIGHT False 0 0 (junk_7 0) ''0,1,3,2.0\<newline>1,0,3,2.0'' 0 ([], 0)
   = ([\<lparr>ei = 0, ej = 1, ew = 2\<rparr>, \<lparr>ei = 1, ej = 0, ew = 2\<rparr>], 1)"
  by code_simp

lemma dist_A: "distribute 2 (Suc 0) [\<lparr>ei = 0, ej = 1, ew = 2\<rparr>, \<lparr>ei = 1, ej = 0, ew = 2\<rparr>]
   = Inr ([0, 2, 2], [[\<lparr>ei = 0, ej = 1, ew = 2\<rparr>, \<lparr>ei = 1, ej = 0, ew = 2\<rparr>,
                        \<lparr>ei = 1, ej = 0, ew = 2\<rparr>, \<lparr>ei = 0, ej = 1, ew = 2\<rparr>]])"
  by code_simp

lemma sort_A: "LocalSorter std_sort [\<lparr>ei = 0, ej = 1, ew = 2\<rparr>, \<lparr>ei = 1, ej = 0, ew = 2\<rparr>,
                        \<lparr>ei = 1, ej = 0, ew = 2\<rparr>, \<lparr>ei = 0, ej = 1, ew = 2\<rparr>]
   = [\<lparr>ei = 0, ej = 1, ew = 2\<rparr>, \<lparr>ei = 0, ej = 1, ew = 2\<rparr>,
                        \<lparr>ei = 1, ej = 0, ew = 2\<rparr>, \<lparr>ei = 1, ej = 0, ew = 2\<rparr>]"
  by code_simp

lemma pack_A: "pack [[\<lparr>ei = 0, ej = 1, ew = 2\<rparr>, \<lparr>ei = 1, ej = 0, ew = 2\<rparr>,
                        \<lparr>ei = 1, ej = 0, ew = 2\<rparr>, \<lparr>ei = 0, ej = 1, ew = 2\<rparr>]]
   = Inr ([\<lparr>ei = 0, ej = 1, ew = 2\<rparr>, \<lparr>ei = 1, ej = 0, ew = 2\<rparr>,
           \<lparr>ei = 1, ej = 0, ew = 2\<rparr>, \<lparr>ei = 0, ej = 1, ew = 2\<rparr>], [4], [0])"
  by code_simp

text \<open>
  The run of one process on the shard \<open>1__1.csv\<close> with the lines \<open>0,1,3,2.0\<close> and
  \<open>1,0,3,2.0\<close>, zero-based, raw weights, for any default edge.
\<close>

lemma run_A:
  "loadParallelFileShards 1 ''d'' 1 1 False ORG_WEIGHT 4
     (one_shard ''0,1,3,2.0\<newline>1,0,3,2.0'') junk_7 dflt std_sort True
   = Some (Inr (MPI_File_write_at
              (MPI_File_write_at
                (MPI_File_write_at
                  (MPI_File_write_at \<lparr>contents = (\<lambda>pos. None), calls = []\<rparr> 0 (bytes_of_GraphElem 2))
                   8 (bytes_of_GraphElem 4))
                16 (bytes_of_GraphElem 0 @ bytes_of_GraphElem 2))
              40 (bytes_of_Edge dflt @ bytes_of_Edge dflt @ bytes_of_Edge dflt @ bytes_of_Edge dflt)))"
  by (simp add: loadParallelFileShards_def names_one_shard read_shard_one read_A
        reduce_numEdges_def reduce_numVertices_def MPI_SUM_def MPI_MAX_def dist_A pack_A
        MPI_Alltoallv_def MPI_Reduce_SUM_def local_prefix_sum_def sort_A
        write_counts_def write_edges_def write_payload_def INT_MAX_def sizeof_GraphElem_def
        sizeof_Edge_def edges_offset_def MPI_Exscan_def csrCols_def
        length_bytes_of_GraphElem length_bytes_of_Edge numeral_3_eq_3 numeral_2_eq_2)

text \<open>
  Claim C2 fails on the code. The run is the scenario of the spec: one process, the
  shard \<open>1__1.csv\<close> with the lines \<open>0,1,3,2.0\<close> and \<open>1,0,3,2.0\<close>, zero-based, raw weights.
  The header has \<open>globalVertexCount = 2\<close> and \<open>globalEdgeCount = 4\<close>, so the claim asks
  for the three entries 0, 2, 4. The call at offset 16 writes 16 bytes, the two entries
  0 and 2; the eight bytes from 32 on, where the third entry belongs, are never
  written, and the edges start at 40. (\<open>edgeCount\<close> has \<open>globalNumVertices + 1\<close> entries
  and the edges are placed after that many, but the reduction, the prefix sum and the
  write run over \<open>globalNumVertices\<close> entries.)
\<close>

theorem C2_offset_table_one_entry_short:
  "\<exists>fh. loadParallelFileShards 1 ''d'' 1 1 False ORG_WEIGHT 4
           (one_shard ''0,1,3,2.0\<newline>1,0,3,2.0'') junk_7 edge_0 std_sort True = Some (Inr fh)
       \<and> calls fh = [(0, 8), (8, 8), (16, 16), (40, 64)]
       \<and> map (contents fh) [0..<40]
         = map Some (bytes_of_GraphElem 2 @ bytes_of_GraphElem 4
                     @ bytes_of_GraphElem 0 @ bytes_of_GraphElem 2) @ replicate 8 None"
proof -
  let ?fh0 = "\<lparr>contents = (\<lambda>pos. None :: byte option), calls = []\<rparr>"
  let ?es = "[\<lparr>ei = 0, ej = 1, ew = 2\<rparr>, \<lparr>ei = 0, ej = 1, ew = 2\<rparr>,
              \<lparr>ei = 1, ej = 0, ew = 2\<rparr>, \<lparr>ei = 1, ej = 0, ew = 2\<rparr>]"
  let ?fh = "MPI_File_write_at
              (MPI_File_write_at
                (MPI_File_write_at (MPI_File_write_at ?fh0 0 (bytes_of_GraphElem 2))
                   8 (bytes_of_GraphElem 4))
                16 (bytes_of_GraphElem 0 @ bytes_of_GraphElem 2))
              40 (bytes_of_Edge edge_0 @ bytes_of_Edge edge_0
                  @ bytes_of_Edge edge_0 @ bytes_of_Edge edge_0)"
  have run: "loadParallelFileShards 1 ''d'' 1 1 False ORG_WEIGHT 4
           (one_shard ''0,1,3,2.0\<newline>1,0,3,2.0'') junk_7 edge_0 std_sort True = Some (Inr ?fh)"
    by (rule run_A)
  have c: "calls ?fh = [(0, 8), (8, 8), (16, 16), (40, 64)]"
    by (simp add: MPI_File_write_at_def length_bytes_of_GraphElem length_bytes_of_Edge)
  have b: "map (contents ?fh) [0..<40]
         = map Some (bytes_of_GraphElem 2 @ bytes_of_GraphElem 4
                     @ bytes_of_GraphElem 0 @ bytes_of_GraphElem 2) @ replicate 8 None"
  proof -
    have r8: "replicate 8 (None :: byte option) = [None, None, None, None, None, None, None, None]"
      by (simp add: eval_nat_numeral)
    show ?thesis
      unfolding r8
      by (simp add: MPI_File_write_at_def bytes_of_GraphElem_def bytes_of_Edge_def upt_rec
         bytes_of_GraphWeight_def edge_0_def)
  qed
  show ?thesis using run c b by blast
qed

text \<open>
  Claim C1 fails on the code. In the same run the process receives four edges and
  sorts them to \<open>(0,1)\<close>, \<open>(0,1)\<close>, \<open>(1,0)\<close>, \<open>(1,0)\<close>, all of weight 2, so the claim asks for
  the records \<open>(1, 2.0)\<close>, \<open>(1, 2.0)\<close>, \<open>(0, 2.0)\<close>, \<open>(0, 2.0)\<close> in the 64 bytes from byte
  40 on. \<open>csrCols\<close> is built with four default edges and the four records are appended
  after them; the write takes the first 64 bytes of it. Whatever the default edge is,
  the 64 bytes written are four copies of it, and they are not the four records.
\<close>

theorem C1_default_edges_written:
  "\<forall>dflt. \<exists>fh.
     loadParallelFileShards 1 ''d'' 1 1 False ORG_WEIGHT 4
        (one_shard ''0,1,3,2.0\<newline>1,0,3,2.0'') junk_7 dflt std_sort True = Some (Inr fh)
     \<and> calls fh = [(0, 8), (8, 8), (16, 16), (40, 64)]
     \<and> LocalSorter std_sort
          (MPI_Alltoallv [([\<lparr>ei = 0, ej = 1, ew = 2\<rparr>, \<lparr>ei = 1, ej = 0, ew = 2\<rparr>,
                            \<lparr>ei = 1, ej = 0, ew = 2\<rparr>, \<lparr>ei = 0, ej = 1, ew = 2\<rparr>], [4], [0])] 0)
        = [\<lparr>ei = 0, ej = 1, ew = 2\<rparr>, \<lparr>ei = 0, ej = 1, ew = 2\<rparr>,
           \<lparr>ei = 1, ej = 0, ew = 2\<rparr>, \<lparr>ei = 1, ej = 0, ew = 2\<rparr>]
     \<and> csrCols dflt [\<lparr>ei = 0, ej = 1, ew = 2\<rparr>, \<lparr>ei = 0, ej = 1, ew = 2\<rparr>,
                     \<lparr>ei = 1, ej = 0, ew = 2\<rparr>, \<lparr>ei = 1, ej = 0, ew = 2\<rparr>]
        = [dflt, dflt, dflt, dflt,
           \<lparr>tail = 1, weight = 2\<rparr>, \<lparr>tail = 1, weight = 2\<rparr>,
           \<lparr>tail = 0, weight = 2\<rparr>, \<lparr>tail = 0, weight = 2\<rparr>]
     \<and> map (contents fh) [40..<104]
        = map Some (concat (map bytes_of_Edge [dflt, dflt, dflt, dflt]))
     \<and> map (contents fh) [40..<104]
        \<noteq> map Some (concat (map bytes_of_Edge
             [\<lparr>tail = 1, weight = 2\<rparr>, \<lparr>tail = 1, weight = 2\<rparr>,
              \<lparr>tail = 0, weight = 2\<rparr>, \<lparr>tail = 0, weight = 2\<rparr>]))"
proof
  fix dflt
  let ?fh = "MPI_File_write_at
              (MPI_File_write_at
                (MPI_File_write_at
                  (MPI_File_write_at \<lparr>contents = (\<lambda>pos. None :: byte option), calls = []\<rparr> 0 (bytes_of_GraphElem 2))
                   8 (bytes_of_GraphElem 4))
                16 (bytes_of_GraphElem 0 @ bytes_of_GraphElem 2))
              40 (bytes_of_Edge dflt @ bytes_of_Edge dflt @ bytes_of_Edge dflt @ bytes_of_Edge dflt)"
  let ?es = "[\<lparr>ei = 0, ej = 1, ew = 2\<rparr>, \<lparr>ei = 0, ej = 1, ew = 2\<rparr>,
              \<lparr>ei = 1, ej = 0, ew = 2\<rparr>, \<lparr>ei = 1, ej = 0, ew = 2\<rparr>]"
  let ?want = "[\<lparr>tail = 1, weight = 2\<rparr>, \<lparr>tail = 1, weight = 2\<rparr>,
                \<lparr>tail = 0, weight = 2\<rparr>, \<lparr>tail = 0, weight = 2 :: GraphWeight\<rparr>]"
  have c: "calls ?fh = [(0, 8), (8, 8), (16, 16), (40, 64)]"
    by (simp add: MPI_File_write_at_def length_bytes_of_GraphElem length_bytes_of_Edge)
  have s: "LocalSorter std_sort
          (MPI_Alltoallv [([\<lparr>ei = 0, ej = 1, ew = 2\<rparr>, \<lparr>ei = 1, ej = 0, ew = 2\<rparr>,
                            \<lparr>ei = 1, ej = 0, ew = 2\<rparr>, \<lparr>ei = 0, ej = 1, ew = 2\<rparr>], [4], [0])] 0)
        = ?es"
    by (simp add: MPI_Alltoallv_def sort_A)
  have k: "csrCols dflt ?es = [dflt, dflt, dflt, dflt] @ ?want"
    by (simp add: csrCols_def numeral_eq_Suc)
  have b: "map (contents ?fh) [40..<104]
        = map Some (concat (map bytes_of_Edge [dflt, dflt, dflt, dflt]))"
    by (simp add: MPI_File_write_at_def bytes_of_GraphElem_def bytes_of_Edge_def upt_rec
         bytes_of_GraphWeight_def)
  have "bytes_of_Edge dflt \<noteq> bytes_of_Edge \<lparr>tail = 1, weight = 2\<rparr>
        \<or> bytes_of_Edge dflt \<noteq> bytes_of_Edge \<lparr>tail = 0, weight = 2\<rparr>"
    by (auto simp: bytes_of_Edge_def bytes_of_GraphElem_def upt_rec)
  then have "concat (map bytes_of_Edge [dflt, dflt, dflt, dflt]) \<noteq> concat (map bytes_of_Edge ?want)"
    by (auto simp: length_bytes_of_Edge)
  then have n: "map (contents ?fh) [40..<104] \<noteq> map Some (concat (map bytes_of_Edge ?want))"
    unfolding b by (simp only: inj_map_eq_map inj_Some not_False_eq_True)
  show "\<exists>fh.
     loadParallelFileShards 1 ''d'' 1 1 False ORG_WEIGHT 4
        (one_shard ''0,1,3,2.0\<newline>1,0,3,2.0'') junk_7 dflt std_sort True = Some (Inr fh)
     \<and> calls fh = [(0, 8), (8, 8), (16, 16), (40, 64)]
     \<and> LocalSorter std_sort
          (MPI_Alltoallv [([\<lparr>ei = 0, ej = 1, ew = 2\<rparr>, \<lparr>ei = 1, ej = 0, ew = 2\<rparr>,
                            \<lparr>ei = 1, ej = 0, ew = 2\<rparr>, \<lparr>ei = 0, ej = 1, ew = 2\<rparr>], [4], [0])] 0)
        = ?es
     \<and> csrCols dflt ?es = [dflt, dflt, dflt, dflt,
           \<lparr>tail = 1, weight = 2\<rparr>, \<lparr>tail = 1, weight = 2\<rparr>,
           \<lparr>tail = 0, weight = 2\<rparr>, \<lparr>tail = 0, weight = 2\<rparr>]
     \<and> map (contents fh) [40..<104]
        = map Some (concat (map bytes_of_Edge [dflt, dflt, dflt, dflt]))
     \<and> map (contents fh) [40..<104] \<noteq> map Some (concat (map bytes_of_Edge ?want))"
    using k by (intro exI[of _ ?fh] conjI run_A c s b n) simp
qed

lemma read_C: "read_loop ORG_WEIGHT True 0 0 (junk_7 0) ''1,2,0,1.0'' 0 ([], 0)
   = ([\<lparr>ei = 0, ej = 1, ew = 1\<rparr>], 1)"
  by code_simp

lemma dist_C: "distribute 1 (Suc 0) [\<lparr>ei = 0, ej = 1, ew = 1\<rparr>] = Inl OutOfBounds"
  by code_simp

lemma run_C:
  "loadParallelFileShards 1 ''d'' 1 1 True ORG_WEIGHT 4 (one_shard ''1,2,0,1.0'') junk_7 dflt
      sort_impl can_open = Some (Inl OutOfBounds)"
  by (simp add: loadParallelFileShards_def names_one_shard read_shard_one read_C
        reduce_numEdges_def reduce_numVertices_def MPI_SUM_def MPI_MAX_def dist_C)

text \<open>
  Claim C4 fails on the code. One process, one-based input, the shard \<open>1__1.csv\<close> with
  the line \<open>1,2,0,1.0\<close>: the decremented ids are 0 and 1, the largest is 1, and the
  claim asks for \<open>globalVertexCount = 2\<close>. The function adds one only if the input is
  zero-based: here it leaves \<open>globalNumVertices = 1\<close>, where the zero-based branch
  gives 2 for the same ids.
\<close>

theorem C4_one_based_count_is_the_maximum:
  "read_shard (one_shard ''1,2,0,1.0'') (fileProc (one_shard ''1,2,0,1.0'') ''d'' 1 1) 0
       True ORG_WEIGHT 4 (junk_7 0) = Inr ([\<lparr>ei = 0, ej = 1, ew = 1\<rparr>], 1)
   \<and> reduce_numVertices True [([\<lparr>ei = 0, ej = 1, ew = 1\<rparr>], 1)] = 1
   \<and> reduce_numVertices False [([\<lparr>ei = 0, ej = 1, ew = 1\<rparr>], 1)] = 2"
  by (simp add: names_one_shard read_shard_one read_C reduce_numVertices_def MPI_MAX_def)

text \<open>
  Claim C5 fails on the code, by the defect of claim C4. In the same run
  \<open>globalNumVertices\<close> is 1 and the table is \<open>[0, 1]\<close>, so the end point 1 of the record
  has no owner: the lookup gives \<open>owner = nprocs\<close>, and \<open>outEdges[owner]\<close> and
  \<open>edgeCount[vertex+1]\<close> are past the end of their vectors. The second tuple of the
  record reaches no process and the function does not get to the exchange.
\<close>

theorem C5_one_based_run_out_of_bounds:
  "loadParallelFileShards 1 ''d'' 1 1 True ORG_WEIGHT 4 (one_shard ''1,2,0,1.0'') junk_7 dflt
      sort_impl can_open = Some (Inl OutOfBounds)
   \<and> distribute 1 1 [\<lparr>ei = 0, ej = 1, ew = 1\<rparr>] = Inl OutOfBounds
   \<and> parts 1 1 = [0, 1] \<and> owner (parts 1 1) 1 = 1"
proof -
  have p: "parts 1 1 = [0, 1]" by code_simp
  have ow: "owner (parts 1 1) 1 = 1" by code_simp
  have d: "distribute 1 1 [\<lparr>ei = 0, ej = 1, ew = 1\<rparr>] = Inl OutOfBounds" by code_simp
  show ?thesis by (intro conjI run_C d p ow)
qed

end
